theory Spec2Isabelle
  imports Complex_Main "HOL-Library.AList" "HOL-Library.Multiset"
begin

section \<open>Labeled graphs\<close>

text \<open>
  The functions of \<^verbatim>\<open>vermouth/graph_utils.py\<close> work on \<^verbatim>\<open>networkx.Graph\<close> objects. Such a
  graph keeps two insertion-ordered dictionaries: \<^verbatim>\<open>_node\<close> (node identifier to attribute
  dictionary) and \<^verbatim>\<open>_adj\<close> (node identifier to a dictionary from neighbour to the edge's
  attribute dictionary). An insertion-ordered dictionary is an association list that is
  changed with \<^const>\<open>AList.update\<close> (an existing key keeps its place, a new key goes
  last); an attribute dictionary, whose order is never observed, is a map from the
  attribute's name.
\<close>

type_synonym 'v attrs = "string \<rightharpoonup> 'v"

record ('n, 'v, 'w) graph =
  node :: "('n \<times> 'v attrs) list"
  adj :: "('n \<times> ('n \<times> 'w attrs) list) list"

definition empty_graph :: "('n, 'v, 'w) graph" where
  "empty_graph = \<lparr>node = [], adj = []\<rparr>"

text \<open>\<^verbatim>\<open>iter(G)\<close>, \<^verbatim>\<open>G.nodes()\<close>: the node identifiers in insertion order.\<close>

definition nodes :: "('n, 'v, 'w) graph \<Rightarrow> 'n list" where
  "nodes g = map fst (node g)"

text \<open>\<^verbatim>\<open>G[n]\<close>, \<^verbatim>\<open>G.neighbors(n)\<close>: the adjacency dictionary of a node of the graph.\<close>

definition nbrs :: "('n, 'v, 'w) graph \<Rightarrow> 'n \<Rightarrow> ('n \<times> 'w attrs) list" where
  "nbrs g n = (case map_of (adj g) n of None \<Rightarrow> [] | Some nb \<Rightarrow> nb)"

definition neighbors :: "('n, 'v, 'w) graph \<Rightarrow> 'n \<Rightarrow> 'n list" where
  "neighbors g n = map fst (nbrs g n)"

text \<open>\<^verbatim>\<open>G.edges[u, v]\<close>: the attribute dictionary of an edge, when the edge is there.\<close>

definition get_edge_data :: "('n, 'v, 'w) graph \<Rightarrow> 'n \<Rightarrow> 'n \<Rightarrow> 'w attrs option" where
  "get_edge_data g u v = map_of (nbrs g u) v"

text \<open>\<^verbatim>\<open>G.has_edge(u, v)\<close>: \<^verbatim>\<open>v in G._adj[u]\<close>, and False when \<^verbatim>\<open>u\<close> is no node.\<close>

definition has_edge :: "('n, 'v, 'w) graph \<Rightarrow> 'n \<Rightarrow> 'n \<Rightarrow> bool" where
  "has_edge g u v = (get_edge_data g u v \<noteq> None)"

text \<open>\<^verbatim>\<open>G.degree(n)\<close>: the number of neighbours, a self-loop counting twice.\<close>

definition degree :: "('n, 'v, 'w) graph \<Rightarrow> 'n \<Rightarrow> nat" where
  "degree g n = length (nbrs g n) + (if has_edge g n n then 1 else 0)"

text \<open>
  \<^verbatim>\<open>G.add_node(n, **attr)\<close>: a new node gets an empty adjacency dictionary and the
  attributes; an existing node has its attribute dictionary updated.
\<close>

definition add_node :: "'n \<Rightarrow> 'v attrs \<Rightarrow> ('n, 'v, 'w) graph \<Rightarrow> ('n, 'v, 'w) graph" where
  "add_node n attr g =
     (case map_of (node g) n of
        None \<Rightarrow> g\<lparr>adj := AList.update n [] (adj g), node := AList.update n attr (node g)\<rparr>
      | Some old \<Rightarrow> g\<lparr>node := AList.update n (old ++ attr) (node g)\<rparr>)"

text \<open>\<^verbatim>\<open>G._adj[u][v] = datadict\<close>.\<close>

definition set_adj :: "'n \<Rightarrow> 'n \<Rightarrow> 'w attrs \<Rightarrow> ('n, 'v, 'w) graph \<Rightarrow> ('n, 'v, 'w) graph" where
  "set_adj u v d g = g\<lparr>adj := AList.update u (AList.update v d (nbrs g u)) (adj g)\<rparr>"

text \<open>
  \<^verbatim>\<open>G.add_edge(u, v, **attr)\<close>: both endpoints become nodes when they are not yet, the
  edge's dictionary (the old one when the edge is there) is updated with the attributes
  and stored in both directions.
\<close>

definition add_edge :: "'n \<Rightarrow> 'n \<Rightarrow> 'w attrs \<Rightarrow> ('n, 'v, 'w) graph \<Rightarrow> ('n, 'v, 'w) graph" where
  "add_edge u v attr g =
     (let g1 = (if map_of (node g) u = None then add_node u Map.empty g else g);
          g2 = (if map_of (node g1) v = None then add_node v Map.empty g1 else g1);
          datadict = (case get_edge_data g2 u v of None \<Rightarrow> Map.empty | Some d \<Rightarrow> d) ++ attr
      in set_adj v u datadict (set_adj u v datadict g2))"

text \<open>
  An undirected graph as networkx keeps it: the two dictionaries have the same keys,
  every neighbour is a node, and an edge is stored in both directions with the same
  attribute dictionary.
\<close>

definition wf_graph :: "('n, 'v, 'w) graph \<Rightarrow> bool" where
  "wf_graph g \<longleftrightarrow>
     distinct (map fst (node g)) \<and> map fst (adj g) = map fst (node g) \<and>
     (\<forall>(u, nb) \<in> set (adj g). distinct (map fst nb) \<and>
        (\<forall>(v, d) \<in> set nb. get_edge_data g v u = Some d))"

section \<open>Product graphs\<close>

text \<open>\<^verbatim>\<open>itertools.combinations(xs, 2)\<close>: the pairs of positions \<open>i < j\<close>, in lexicographic order.\<close>

fun combinations2 :: "'a list \<Rightarrow> ('a \<times> 'a) list" where
  "combinations2 [] = []"
| "combinations2 (x # xs) = map (Pair x) xs @ combinations2 xs"

text \<open>
  \<^verbatim>\<open>all(attr in node1 and attr in node2 and node1[attr] == node2[attr] for attr in attributes)\<close>
\<close>

definition attrs_match :: "string list \<Rightarrow> 'v attrs \<Rightarrow> 'v attrs \<Rightarrow> bool" where
  "attrs_match attributes node1 node2 =
     list_all (\<lambda>attr. node1 attr \<noteq> None \<and> node2 attr \<noteq> None \<and> node1 attr = node2 attr) attributes"

text \<open>
  \<^verbatim>\<open>for attr in set(d1.keys()) | set(d2.keys()): attrs[attr] = (d1.get(attr, None), d2.get(attr, None))\<close>
\<close>

definition paired_attrs :: "'v attrs \<Rightarrow> 'v attrs \<Rightarrow> ('v option \<times> 'v option) attrs" where
  "paired_attrs d1 d2 = (\<lambda>attr. if d1 attr \<noteq> None \<or> d2 attr \<noteq> None then Some (d1 attr, d2 attr) else None)"

definition categorical_cartesian_product ::
  "('a, 'v, 'w) graph \<Rightarrow> ('b, 'v, 'w) graph \<Rightarrow> string list \<Rightarrow>
     ('a \<times> 'b, 'v option \<times> 'v option, 'w option \<times> 'w option) graph" where
  "categorical_cartesian_product graph1 graph2 attributes =
     foldl (\<lambda>product ((idx1, node1), (idx2, node2)).
              if attrs_match attributes node1 node2
              then add_node (idx1, idx2) (paired_attrs node1 node2) product
              else product)
       empty_graph (List.product (node graph1) (node graph2))"

definition modular_step ::
  "('a, 'v, 'w) graph \<Rightarrow> ('b, 'v, 'w) graph \<Rightarrow>
   ('a \<times> 'b, 'x, 'w option \<times> 'w option) graph \<Rightarrow> ('a \<times> 'b) \<times> ('a \<times> 'b) \<Rightarrow>
   ('a \<times> 'b, 'x, 'w option \<times> 'w option) graph" where
  "modular_step graph1 graph2 product = (\<lambda>((graph1_node1, graph2_node1), (graph1_node2, graph2_node2)).
     let both_edge = has_edge graph1 graph1_node1 graph1_node2 \<and> has_edge graph2 graph2_node1 graph2_node2;
         neither_edge = \<not> has_edge graph1 graph1_node1 graph1_node2 \<and>
                        \<not> has_edge graph2 graph2_node1 graph2_node2
     in if graph1_node1 \<noteq> graph1_node2 \<and> graph2_node1 \<noteq> graph2_node2 \<and> (both_edge \<or> neither_edge)
        then add_edge (graph1_node1, graph2_node1) (graph1_node2, graph2_node2)
               (case (get_edge_data graph1 graph1_node1 graph1_node2,
                      get_edge_data graph2 graph2_node1 graph2_node2) of
                  (Some d1, Some d2) \<Rightarrow> paired_attrs d1 d2
                | _ \<Rightarrow> Map.empty)
               product
        else product)"

definition categorical_modular_product ::
  "('a, 'v, 'w) graph \<Rightarrow> ('b, 'v, 'w) graph \<Rightarrow> string list \<Rightarrow>
     ('a \<times> 'b, 'v option \<times> 'v option, 'w option \<times> 'w option) graph" where
  "categorical_modular_product graph1 graph2 attributes =
     (let product = categorical_cartesian_product graph1 graph2 attributes
      in foldl (modular_step graph1 graph2) product (combinations2 (nodes product)))"

section \<open>Clique-based maximum common subgraph\<close>

text \<open>
  \<^verbatim>\<open>networkx.find_cliques(G)\<close> belongs to the graph library, not to the repository. It is
  taken by its documented contract: it yields every maximal clique of the graph once, as
  a list of nodes, and yields nothing for a graph without nodes. Self-loops are ignored
  (the library removes every node from its own neighbourhood first). The order in which
  the library yields the cliques, and the order of the nodes in one clique, come from the
  iteration order of Python sets; here a clique lists its nodes in the graph's node order
  and the cliques come in the order of \<^const>\<open>subseqs\<close>. No statement below depends on
  that order.
\<close>

definition is_clique :: "('n, 'v, 'w) graph \<Rightarrow> 'n list \<Rightarrow> bool" where
  "is_clique g c = (\<forall>u \<in> set c. \<forall>v \<in> set c. u \<noteq> v \<longrightarrow> has_edge g u v)"

definition is_maximal_clique :: "('n, 'v, 'w) graph \<Rightarrow> 'n list \<Rightarrow> bool" where
  "is_maximal_clique g c \<longleftrightarrow>
     c \<noteq> [] \<and> is_clique g c \<and>
     (\<forall>n \<in> set (nodes g). n \<notin> set c \<longrightarrow> \<not> (\<forall>u \<in> set c. has_edge g u n))"

definition find_cliques :: "('n, 'v, 'w) graph \<Rightarrow> 'n list list" where
  "find_cliques g = filter (is_maximal_clique g) (subseqs (nodes g))"

text \<open>
  Modelled from the spec: \<^verbatim>\<open>maxes\<close> is imported from \<^verbatim>\<open>vermouth/utils.py\<close>, which is not among
  the sources. The spec says of it: retain only the items of maximum key, ties all
  retained. The items keep their order.
\<close>

definition maxes :: "('a \<Rightarrow> nat) \<Rightarrow> 'a list \<Rightarrow> 'a list" where
  "maxes key xs = filter (\<lambda>x. \<forall>y \<in> set xs. key y \<le> key x) xs"

text \<open>\<^verbatim>\<open>dict(pairs)\<close>: a later pair with the same key overwrites the value, in place.\<close>

definition dict :: "('k \<times> 'x) list \<Rightarrow> ('k \<times> 'x) list" where
  "dict pairs = foldl (\<lambda>d (k, v). AList.update k v d) [] pairs"

definition categorical_maximum_common_subgraph ::
  "('a, 'v, 'w) graph \<Rightarrow> ('b, 'v, 'w) graph \<Rightarrow> string list \<Rightarrow> ('a \<times> 'b) list list" where
  "categorical_maximum_common_subgraph graph1 graph2 attributes =
     (let product = categorical_modular_product graph1 graph2 attributes;
          cliques = find_cliques product;
          largest = maxes length cliques
      in map dict largest)"

section \<open>Degree-aware two-phase maximum common subgraph\<close>

text \<open>The edge loop of both phases: adjacency in both graphs or in neither, no attributes.\<close>

definition xnor_step ::
  "('a, 'v, 'w) graph \<Rightarrow> ('b, 'v, 'w) graph \<Rightarrow>
   ('a \<times> 'b, unit, unit) graph \<Rightarrow> ('a \<times> 'b) \<times> ('a \<times> 'b) \<Rightarrow> ('a \<times> 'b, unit, unit) graph" where
  "xnor_step graph1 graph2 product = (\<lambda>((g1_node1, g2_node1), (g1_node2, g2_node2)).
     let both_edge = has_edge graph1 g1_node1 g1_node2 \<and> has_edge graph2 g2_node1 g2_node2;
         neither_edge = \<not> has_edge graph1 g1_node1 g1_node2 \<and> \<not> has_edge graph2 g2_node1 g2_node2
     in if g1_node1 \<noteq> g1_node2 \<and> g2_node1 \<noteq> g2_node2 \<and> (both_edge \<or> neither_edge)
        then add_edge (g1_node1, g2_node1) (g1_node2, g2_node2) Map.empty product
        else product)"

definition add_xnor_edges ::
  "('a, 'v, 'w) graph \<Rightarrow> ('b, 'v, 'w) graph \<Rightarrow> ('a \<times> 'b, unit, unit) graph \<Rightarrow>
   ('a \<times> 'b, unit, unit) graph" where
  "add_xnor_edges graph1 graph2 product =
     foldl (xnor_step graph1 graph2) product (combinations2 (nodes product))"

text \<open>Phase one: the product over the pairs of nodes of degree other than one.\<close>

definition heavy_product ::
  "('a, 'v, 'w) graph \<Rightarrow> ('b, 'v, 'w) graph \<Rightarrow> string list \<Rightarrow> ('a \<times> 'b, unit, unit) graph" where
  "heavy_product graph1 graph2 attributes =
     add_xnor_edges graph1 graph2
       (foldl (\<lambda>product ((g1_node, node1), (g2_node, node2)).
                 if attrs_match attributes node1 node2
                 then (if degree graph1 g1_node \<noteq> 1 \<and> degree graph2 g2_node \<noteq> 1
                       then add_node (g1_node, g2_node) Map.empty product else product)
                 else product)
          empty_graph (List.product (node graph1) (node graph2)))"

text \<open>
  Phase two, for one clique of phase one: the test of a pair of nodes, the nodes of the
  clique's own product graph, and the graph with its edges.
\<close>

definition leaf_compatible ::
  "('a, 'v, 'w) graph \<Rightarrow> ('b, 'v, 'w) graph \<Rightarrow> ('a \<times> 'b) list \<Rightarrow> 'a \<Rightarrow> 'b \<Rightarrow> bool" where
  "leaf_compatible graph1 graph2 match g1_node g2_node =
     (let g1_neighbors = map (map_of match) (neighbors graph1 g1_node)
      in g1_neighbors = [] \<or> None \<in> set g1_neighbors \<or>
         list_ex (\<lambda>n. Some n \<in> set g1_neighbors) (neighbors graph2 g2_node))"

definition clique_nodes ::
  "('a, 'v, 'w) graph \<Rightarrow> ('b, 'v, 'w) graph \<Rightarrow> string list \<Rightarrow> ('a \<times> 'b) list \<Rightarrow>
   ('a \<times> 'b, unit, unit) graph" where
  "clique_nodes graph1 graph2 attributes clique =
     (let match = dict clique
      in foldl (\<lambda>product ((g1_node, node1), (g2_node, node2)).
                  if (degree graph1 g1_node \<le> 1 \<or> degree graph2 g2_node \<le> 1) \<and>
                     attrs_match attributes node1 node2
                  then (if leaf_compatible graph1 graph2 match g1_node g2_node
                        then add_node (g1_node, g2_node) Map.empty product else product)
                  else product)
           (foldl (\<lambda>product n. add_node n Map.empty product) empty_graph clique)
           (List.product (node graph1) (node graph2)))"

definition clique_product ::
  "('a, 'v, 'w) graph \<Rightarrow> ('b, 'v, 'w) graph \<Rightarrow> string list \<Rightarrow> ('a \<times> 'b) list \<Rightarrow>
   ('a \<times> 'b, unit, unit) graph" where
  "clique_product graph1 graph2 attributes clique =
     add_xnor_edges graph1 graph2 (clique_nodes graph1 graph2 attributes clique)"

text \<open>\<^verbatim>\<open>itertools.chain([[]], nx.find_cliques(product))\<close>: the seeds of phase two.\<close>

definition heavy_cliques ::
  "('a, 'v, 'w) graph \<Rightarrow> ('b, 'v, 'w) graph \<Rightarrow> string list \<Rightarrow> ('a \<times> 'b) list list" where
  "heavy_cliques graph1 graph2 attributes = [] # find_cliques (heavy_product graph1 graph2 attributes)"

definition all_cliques ::
  "('a, 'v, 'w) graph \<Rightarrow> ('b, 'v, 'w) graph \<Rightarrow> string list \<Rightarrow> ('a \<times> 'b) list list" where
  "all_cliques graph1 graph2 attributes =
     concat (map (\<lambda>clique. find_cliques (clique_product graph1 graph2 attributes clique))
               (heavy_cliques graph1 graph2 attributes))"

text \<open>
  \<^verbatim>\<open>set(frozenset(m) for m in largest)\<close>: one representative of every set of node pairs.
  Python iterates the set, and each frozenset, in an order of its own; here the first
  occurrence stands for the set, with its pairs in the order of the clique.
\<close>

fun frozensets :: "'a list list \<Rightarrow> 'a list list" where
  "frozensets [] = []"
| "frozensets (m # ms) = m # frozensets (filter (\<lambda>m'. set m' \<noteq> set m) ms)"

definition maximum_common_subgraph ::
  "('a, 'v, 'w) graph \<Rightarrow> ('b, 'v, 'w) graph \<Rightarrow> string list \<Rightarrow> ('a \<times> 'b) list list" where
  "maximum_common_subgraph graph1 graph2 attributes =
     (let largest = maxes length (all_cliques graph1 graph2 attributes);
          matches = frozensets largest
      in map dict matches)"

section \<open>Errors\<close>

text \<open>
  The exceptions the code can raise: a missing node or attribute (\<^verbatim>\<open>KeyError\<close>), an index
  beyond a list (\<^verbatim>\<open>IndexError\<close>), the minimum of an empty set (\<^verbatim>\<open>ValueError\<close>), a method
  that a value does not have (\<^verbatim>\<open>AttributeError\<close>). A
  function that can raise returns \<open>error + 'a\<close>; the first exception ends a loop.
\<close>

datatype error = KeyError | IndexError | ValueError | AttributeError

fun sequence :: "(error + 'a) list \<Rightarrow> error + 'a list" where
  "sequence [] = Inr []"
| "sequence (Inl e # _) = Inl e"
| "sequence (Inr x # rs) = (case sequence rs of Inl e \<Rightarrow> Inl e | Inr xs \<Rightarrow> Inr (x # xs))"

text \<open>\<^verbatim>\<open>G.nodes[n][key]\<close>\<close>

definition node_attr :: "('n, 'v, 'w) graph \<Rightarrow> 'n \<Rightarrow> string \<Rightarrow> error + 'v" where
  "node_attr g n key =
     (case map_of (node g) n of
        None \<Rightarrow> Inl KeyError
      | Some a \<Rightarrow> (case a key of None \<Rightarrow> Inl KeyError | Some x \<Rightarrow> Inr x))"

section \<open>Match ranking\<close>

text \<open>
  \<^verbatim>\<open>sum(residue.node[rdx].get('atomname') == bead.node[bdx].get('atomname') for rdx, bdx in match.items())\<close>:
  \<^verbatim>\<open>G.node[n]\<close> raises for an identifier that is no node, \<^verbatim>\<open>.get('atomname')\<close> gives
  \<^verbatim>\<open>None\<close> for a node without the attribute.
\<close>

definition get_atomname :: "('n, 'v, 'w) graph \<Rightarrow> 'n \<Rightarrow> error + 'v option" where
  "get_atomname g n = (case map_of (node g) n of None \<Rightarrow> Inl KeyError | Some a \<Rightarrow> Inr (a ''atomname''))"

definition same_atomname ::
  "('a, 'v, 'w) graph \<Rightarrow> ('b, 'v, 'w) graph \<Rightarrow> 'a \<times> 'b \<Rightarrow> error + bool" where
  "same_atomname residue bead = (\<lambda>(rdx, bdx).
     case get_atomname residue rdx of
       Inl e \<Rightarrow> Inl e
     | Inr rname \<Rightarrow>
         (case get_atomname bead bdx of
            Inl e \<Rightarrow> Inl e
          | Inr bname \<Rightarrow> Inr (rname = bname)))"

definition rate_match ::
  "('a, 'v, 'w) graph \<Rightarrow> ('b, 'v, 'w) graph \<Rightarrow> ('a \<times> 'b) list \<Rightarrow> error + int" where
  "rate_match residue bead match =
     (case sequence (map (same_atomname residue bead) match) of
        Inl e \<Rightarrow> Inl e
      | Inr bs \<Rightarrow> Inr (sum_list (map of_bool bs)))"

text \<open>
  \<^verbatim>\<open>sorted(matches, key=lambda m: rate_match(reference, residue, m), reverse=True)\<close>:
  the keys are computed first, in order; the sort is stable, also when reversed.
\<close>

definition sorted_by_rate ::
  "('a, 'v, 'w) graph \<Rightarrow> ('b, 'v, 'w) graph \<Rightarrow> ('a \<times> 'b) list list \<Rightarrow> error + ('a \<times> 'b) list list" where
  "sorted_by_rate reference residue matches =
     (case sequence (map (rate_match reference residue) matches) of
        Inl e \<Rightarrow> Inl e
      | Inr keys \<Rightarrow> Inr (map snd (sort_key (\<lambda>(k, m). - k) (zip keys matches))))"

section \<open>Subgraph isomorphism\<close>

subsection \<open>The matcher of the graph library\<close>

text \<open>
  \<^verbatim>\<open>ElementGraphMatcher\<close> subclasses \<^verbatim>\<open>networkx.isomorphism.GraphMatcher\<close>, the library's VF2
  matcher, and \<^verbatim>\<open>isomorphism\<close> writes into its private state. The library is not part of
  the repository; its matcher is given here as networkx 2 has it (the version whose
  \<^verbatim>\<open>G.node\<close> and \<^verbatim>\<open>G.edges[...]\<close> the repository uses), with \<^verbatim>\<open>test = 'subgraph'\<close>
  throughout. \<^verbatim>\<open>G1\<close> is the reference, \<^verbatim>\<open>G2\<close> the residue.

  The state of a matcher is four dictionaries: \<^verbatim>\<open>core_1\<close> (the mapping, from \<^verbatim>\<open>G1\<close> to
  \<^verbatim>\<open>G2\<close>), \<^verbatim>\<open>core_2\<close> (from \<^verbatim>\<open>G2\<close> to \<^verbatim>\<open>G1\<close>), and \<^verbatim>\<open>inout_1\<close>, \<^verbatim>\<open>inout_2\<close> (the nodes in or
  next to the mapping, with the depth at which they came in).
\<close>

record ('r, 's) matcher =
  core_1 :: "('r \<times> 's) list"
  core_2 :: "('s \<times> 'r) list"
  inout_1 :: "('r \<times> nat) list"
  inout_2 :: "('s \<times> nat) list"

text \<open>\<^verbatim>\<open>GraphMatcher.initialize\<close>, which \<^verbatim>\<open>ElementGraphMatcher.__init__\<close> calls once.\<close>

definition initialize :: "('r, 's) matcher" where
  "initialize = \<lparr>core_1 = [], core_2 = [], inout_1 = [], inout_2 = []\<rparr>"

definition number_of_edges :: "('n, 'v, 'w) graph \<Rightarrow> 'n \<Rightarrow> 'n \<Rightarrow> nat" where
  "number_of_edges g u v = (if has_edge g u v then 1 else 0)"

text \<open>\<^verbatim>\<open>ElementGraphMatcher.semantic_feasibility\<close>: equal \<^verbatim>\<open>element\<close> attributes.\<close>

definition semantic_feasibility ::
  "('r, 'v, 'w) graph \<Rightarrow> ('s, 'v, 'w) graph \<Rightarrow> 'r \<Rightarrow> 's \<Rightarrow> error + bool" where
  "semantic_feasibility G1 G2 node1 node2 =
     (case node_attr G1 node1 ''element'' of
        Inl e \<Rightarrow> Inl e
      | Inr elem1 \<Rightarrow>
          (case node_attr G2 node2 ''element'' of
             Inl e \<Rightarrow> Inl e
           | Inr elem2 \<Rightarrow> Inr (elem1 = elem2)))"

text \<open>
  \<^verbatim>\<open>GraphMatcher.syntactic_feasibility\<close>: equal self-loops; every mapped neighbour of one
  node is mapped to a neighbour of the other; and the two look-ahead counts.
\<close>

definition syntactic_feasibility ::
  "('r, 'v, 'w) graph \<Rightarrow> ('s, 'v, 'w) graph \<Rightarrow> ('r, 's) matcher \<Rightarrow> 'r \<Rightarrow> 's \<Rightarrow> bool" where
  "syntactic_feasibility G1 G2 st G1_node G2_node \<longleftrightarrow>
     number_of_edges G1 G1_node G1_node = number_of_edges G2 G2_node G2_node \<and>
     list_all (\<lambda>neighbor.
         case map_of (core_1 st) neighbor of
           None \<Rightarrow> True
         | Some m \<Rightarrow> m \<in> set (neighbors G2 G2_node) \<and>
                     number_of_edges G1 neighbor G1_node = number_of_edges G2 m G2_node)
       (neighbors G1 G1_node) \<and>
     list_all (\<lambda>neighbor.
         case map_of (core_2 st) neighbor of
           None \<Rightarrow> True
         | Some n \<Rightarrow> n \<in> set (neighbors G1 G1_node) \<and>
                     number_of_edges G1 n G1_node = number_of_edges G2 neighbor G2_node)
       (neighbors G2 G2_node) \<and>
     length (filter (\<lambda>neighbor. map_of (inout_2 st) neighbor \<noteq> None \<and> map_of (core_2 st) neighbor = None)
               (neighbors G2 G2_node))
       \<le> length (filter (\<lambda>neighbor. map_of (inout_1 st) neighbor \<noteq> None \<and> map_of (core_1 st) neighbor = None)
               (neighbors G1 G1_node)) \<and>
     length (filter (\<lambda>neighbor. map_of (inout_2 st) neighbor = None) (neighbors G2 G2_node))
       \<le> length (filter (\<lambda>neighbor. map_of (inout_1 st) neighbor = None) (neighbors G1 G1_node))"

text \<open>
  \<^verbatim>\<open>GMState.__init__(GM, G1_node, G2_node)\<close>: the pair enters the mapping; the two nodes,
  and then every neighbour of a mapped node that is not mapped itself, enter the inout
  dictionaries with the new depth unless they are there already. \<^verbatim>\<open>GMState.restore\<close>
  deletes the pair and the inout entries of that depth, that is exactly what the
  constructor added (depths grow with the mapping), so after it the search goes on in the
  state it had before: the state is passed down and never passed back.
\<close>

definition enter :: "nat \<Rightarrow> ('n \<times> nat) list \<Rightarrow> 'n \<Rightarrow> ('n \<times> nat) list" where
  "enter depth inout n = (if map_of inout n = None then AList.update n depth inout else inout)"

definition GMState ::
  "('r, 'v, 'w) graph \<Rightarrow> ('s, 'v, 'w) graph \<Rightarrow> ('r, 's) matcher \<Rightarrow> 'r \<Rightarrow> 's \<Rightarrow> ('r, 's) matcher" where
  "GMState G1 G2 GM G1_node G2_node =
     (let c1 = AList.update G1_node G2_node (core_1 GM);
          c2 = AList.update G2_node G1_node (core_2 GM);
          depth = length c1;
          new_nodes1 = concat (map (\<lambda>n. filter (\<lambda>neighbor. map_of c1 neighbor = None) (neighbors G1 n))
                                 (map fst c1));
          new_nodes2 = concat (map (\<lambda>n. filter (\<lambda>neighbor. map_of c2 neighbor = None) (neighbors G2 n))
                                 (map fst c2))
      in \<lparr>core_1 = c1, core_2 = c2,
          inout_1 = foldl (enter depth) (enter depth (inout_1 GM) G1_node) new_nodes1,
          inout_2 = foldl (enter depth) (enter depth (inout_2 GM) G2_node) new_nodes2\<rparr>)"

text \<open>
  \<^verbatim>\<open>GraphMatcher.candidate_pairs_iter\<close>. The library filters the set of the nodes of a
  graph, whose iteration order is Python's; here it is the order of the graph's nodes.
  \<^verbatim>\<open>min\<close> is the minimum in the order of the node identifiers, and raises on an empty set.
\<close>

definition candidate_pairs_iter ::
  "('r, 'v, 'w) graph \<Rightarrow> ('s::linorder, 'v, 'w) graph \<Rightarrow> ('r, 's) matcher \<Rightarrow> error + ('r \<times> 's) list" where
  "candidate_pairs_iter G1 G2 st =
     (let T1_inout = filter (\<lambda>n. map_of (inout_1 st) n \<noteq> None \<and> map_of (core_1 st) n = None) (nodes G1);
          T2_inout = filter (\<lambda>n. map_of (inout_2 st) n \<noteq> None \<and> map_of (core_2 st) n = None) (nodes G2)
      in if T1_inout \<noteq> [] \<and> T2_inout \<noteq> []
         then Inr (map (\<lambda>n. (n, min_list T2_inout)) T1_inout)
         else (case filter (\<lambda>n. map_of (core_2 st) n = None) (nodes G2) of
                 [] \<Rightarrow> Inl ValueError
               | n # ns \<Rightarrow>
                   Inr (map (\<lambda>n'. (n', min_list (n # ns)))
                          (filter (\<lambda>n'. map_of (core_1 st) n' = None) (nodes G1)))))"

text \<open>
  A generator is the list of the values it yields and the exception that ends it, if one
  does: a consumer that stops early never sees an exception that would come later.
\<close>

type_synonym 'x generator = "'x list \<times> error option"

fun chain :: "'x generator list \<Rightarrow> 'x generator" where
  "chain [] = ([], None)"
| "chain ((xs, Some e) # _) = (xs, Some e)"
| "chain ((xs, None) # gs) = (xs @ fst (chain gs), snd (chain gs))"

text \<open>\<^verbatim>\<open>list(gen)\<close> and \<^verbatim>\<open>list(itertools.islice(gen, 1))\<close>.\<close>

definition to_list :: "'x generator \<Rightarrow> error + 'x list" where
  "to_list gen = (case snd gen of None \<Rightarrow> Inr (fst gen) | Some e \<Rightarrow> Inl e)"

definition islice1 :: "'x generator \<Rightarrow> error + 'x list" where
  "islice1 gen =
     (case fst gen of
        x # _ \<Rightarrow> Inr [x]
      | [] \<Rightarrow> (case snd gen of None \<Rightarrow> Inr [] | Some e \<Rightarrow> Inl e))"

text \<open>
  \<^verbatim>\<open>GraphMatcher.match\<close>: a mapping as long as \<^verbatim>\<open>G2\<close> is yielded (a copy of \<^verbatim>\<open>core_1\<close>);
  otherwise every candidate pair that is syntactically and semantically feasible is
  tried in turn. \<^verbatim>\<open>subgraph_isomorphisms_iter\<close> is \<^verbatim>\<open>match\<close> on the current state, since
  \<^verbatim>\<open>ElementGraphMatcher.initialize\<close> does nothing.
\<close>

function GM_match ::
  "('r, 'v, 'w) graph \<Rightarrow> ('s::linorder, 'v, 'w) graph \<Rightarrow> ('r, 's) matcher \<Rightarrow> ('r \<times> 's) list generator" where
  "GM_match G1 G2 st =
     (if length (core_1 st) = length (nodes G2) then ([core_1 st], None)
      else (case candidate_pairs_iter G1 G2 st of
              Inl e \<Rightarrow> ([], Some e)
            | Inr pairs \<Rightarrow>
                chain (map (\<lambda>p.
                    if syntactic_feasibility G1 G2 st (fst p) (snd p)
                    then (case semantic_feasibility G1 G2 (fst p) (snd p) of
                            Inl e \<Rightarrow> ([], Some e)
                          | Inr ok \<Rightarrow> if ok then GM_match G1 G2 (GMState G1 G2 st (fst p) (snd p))
                                     else ([], None))
                    else ([], None)) pairs)))"
  by pat_completeness auto

lemma candidate_pairs_iter_cases:
  assumes "candidate_pairs_iter G1 G2 st = Inr pairs" and "p \<in> set pairs"
  shows "fst p \<in> set (nodes G1) \<and> map_of (core_1 st) (fst p) = None \<and>
         snd p \<in> set (nodes G2) \<and> map_of (core_2 st) (snd p) = None"
proof -
  define T1 where "T1 = filter (\<lambda>n. map_of (inout_1 st) n \<noteq> None \<and> map_of (core_1 st) n = None) (nodes G1)"
  define T2 where "T2 = filter (\<lambda>n. map_of (inout_2 st) n \<noteq> None \<and> map_of (core_2 st) n = None) (nodes G2)"
  define R1 where "R1 = filter (\<lambda>n'. map_of (core_1 st) n' = None) (nodes G1)"
  define R2 where "R2 = filter (\<lambda>n. map_of (core_2 st) n = None) (nodes G2)"
  have eq: "candidate_pairs_iter G1 G2 st =
     (if T1 \<noteq> [] \<and> T2 \<noteq> [] then Inr (map (\<lambda>n. (n, min_list T2)) T1)
      else (case R2 of [] \<Rightarrow> Inl ValueError | n # ns \<Rightarrow> Inr (map (\<lambda>n'. (n', min_list (n # ns))) R1)))"
    unfolding candidate_pairs_iter_def Let_def T1_def T2_def R1_def R2_def ..
  have mem: "min_list xs \<in> set xs" if "xs \<noteq> []" for xs :: "'b list"
    using that by (simp add: min_list_Min)
  have "(fst p \<in> set T1 \<or> fst p \<in> set R1) \<and> (snd p \<in> set T2 \<or> snd p \<in> set R2)"
  proof (cases "T1 \<noteq> [] \<and> T2 \<noteq> []")
    case True
    with assms eq have "fst p \<in> set T1" "snd p = min_list T2" by auto
    with True mem [of T2] show ?thesis by simp
  next
    case False
    show ?thesis
    proof (cases R2)
      case Nil
      with False assms eq show ?thesis by (auto split: if_splits)
    next
      case (Cons n ns)
      with False assms eq have "fst p \<in> set R1" "snd p = min_list R2" by (auto split: if_splits)
      with Cons mem [of R2] show ?thesis by simp
    qed
  qed
  then show ?thesis
    by (auto simp: T1_def T2_def R1_def R2_def)
qed

lemma core_1_GMState: "core_1 (GMState G1 G2 st n m) = AList.update n m (core_1 st)"
  by (simp add: GMState_def Let_def)

lemma core_2_GMState: "core_2 (GMState G1 G2 st n m) = AList.update m n (core_2 st)"
  by (simp add: GMState_def Let_def)

termination GM_match
proof (relation "measure (\<lambda>(G1, G2, st). card (set (nodes G1) - fst ` set (core_1 st)))", goal_cases)
  case 1
  show ?case by simp
next
  case (2 G1 G2 st pairs p ok)
  then have f: "fst p \<in> set (nodes G1)" "map_of (core_1 st) (fst p) = None"
    using candidate_pairs_iter_cases by blast+
  then have "fst p \<notin> fst ` set (core_1 st)"
    by (simp add: map_of_eq_None_iff)
  with f(1) have "set (nodes G1) - fst ` set (AList.update (fst p) (snd p) (core_1 st))
      \<subset> set (nodes G1) - fst ` set (core_1 st)"
    by (auto simp: AList.dom_update)
  then have "card (set (nodes G1) - fst ` set (AList.update (fst p) (snd p) (core_1 st)))
      < card (set (nodes G1) - fst ` set (core_1 st))"
    by (intro psubset_card_mono) auto
  then show ?case
    by (simp add: core_1_GMState)
qed

declare GM_match.simps [simp del]

subsection \<open>The repository's search\<close>

text \<open>
  \<^verbatim>\<open>G.remove_nodes_from(nodes)\<close>: a node of the graph is deleted with the entries its
  neighbours have for it; any other identifier is passed over.
\<close>

definition remove_node :: "'n \<Rightarrow> ('n, 'v, 'w) graph \<Rightarrow> ('n, 'v, 'w) graph" where
  "remove_node n g =
     (case map_of (node g) n of
        None \<Rightarrow> g
      | Some _ \<Rightarrow>
          (let g' = foldl (\<lambda>h u. h\<lparr>adj := AList.update u (AList.delete n (nbrs h u)) (adj h)\<rparr>)
                      (g\<lparr>node := AList.delete n (node g)\<rparr>) (neighbors g n)
           in g'\<lparr>adj := AList.delete n (adj g')\<rparr>))"

definition remove_nodes_from :: "'n list \<Rightarrow> ('n, 'v, 'w) graph \<Rightarrow> ('n, 'v, 'w) graph" where
  "remove_nodes_from ns g = foldl (\<lambda>h n. remove_node n h) g ns"

text \<open>
  The dictionary \<^verbatim>\<open>H_names\<close> of one reference node: the degree-one neighbours of the node,
  grouped by their \<^verbatim>\<open>atomname\<close> (\<^verbatim>\<open>H_names[name].append(idx)\<close> on a \<^verbatim>\<open>defaultdict(list)\<close>).
\<close>

definition H_names_step ::
  "('r, 'v, 'w) graph \<Rightarrow> error + ('v \<times> 'r list) list \<Rightarrow> 'r \<Rightarrow> error + ('v \<times> 'r list) list" where
  "H_names_step reference acc idx =
     (case acc of
        Inl e \<Rightarrow> Inl e
      | Inr H_names \<Rightarrow>
          if degree reference idx = 1
          then (case node_attr reference idx ''atomname'' of
                  Inl e \<Rightarrow> Inl e
                | Inr name \<Rightarrow>
                    Inr (AList.update name
                           ((case map_of H_names name of None \<Rightarrow> [] | Some idxs \<Rightarrow> idxs) @ [idx]) H_names))
          else Inr H_names)"

definition H_names_of :: "('r, 'v, 'w) graph \<Rightarrow> 'r \<Rightarrow> error + ('v \<times> 'r list) list" where
  "H_names_of reference ref_neighbor =
     (case map_of (adj reference) ref_neighbor of
        None \<Rightarrow> Inl KeyError
      | Some nb \<Rightarrow> foldl (H_names_step reference) (Inr []) (map fst nb))"

text \<open>
  The body of the loop \<^verbatim>\<open>for res_H_idx in H_idxs\<close>, on the pair of dictionaries
  \<^verbatim>\<open>match\<close> and \<^verbatim>\<open>reverse_match\<close>.
\<close>

definition extend_leaf ::
  "('r, 'v, 'w) graph \<Rightarrow> ('s, 'v, 'w) graph \<Rightarrow> ('r \<times> 's) list \<times> ('s \<times> 'r) list \<Rightarrow> 's \<Rightarrow>
   error + ('r \<times> 's) list \<times> ('s \<times> 'r) list" where
  "extend_leaf reference residue = (\<lambda>(match, reverse_match) res_H_idx.
     case neighbors residue res_H_idx of
       [] \<Rightarrow> Inl IndexError
     | res_neighbor # _ \<Rightarrow>
         (case map_of reverse_match res_neighbor of
            None \<Rightarrow> Inr (match, reverse_match)
          | Some ref_neighbor \<Rightarrow>
              (case H_names_of reference ref_neighbor of
                 Inl e \<Rightarrow> Inl e
               | Inr H_names \<Rightarrow>
                   (case node_attr residue res_H_idx ''atomname'' of
                      Inl e \<Rightarrow> Inl e
                    | Inr res_H_name \<Rightarrow>
                        (case map_of H_names res_H_name of
                           None \<Rightarrow> Inr (match, reverse_match)
                         | Some [] \<Rightarrow> Inr (match, reverse_match)
                         | Some (ref_H_idx # others) \<Rightarrow>
                             if others \<noteq> [] then Inr (match, reverse_match)
                             else if map_of match ref_H_idx \<noteq> None then Inr (match, reverse_match)
                             else (case semantic_feasibility reference residue ref_H_idx res_H_idx of
                                     Inl e \<Rightarrow> Inl e
                                   | Inr same \<Rightarrow>
                                       if same
                                       then Inr (AList.update ref_H_idx res_H_idx match,
                                                 AList.update res_H_idx ref_H_idx reverse_match)
                                       else Inr (match, reverse_match)))))))"

fun extend_leaves ::
  "('r, 'v, 'w) graph \<Rightarrow> ('s, 'v, 'w) graph \<Rightarrow> ('r \<times> 's) list \<times> ('s \<times> 'r) list \<Rightarrow> 's list \<Rightarrow>
   error + ('r \<times> 's) list \<times> ('s \<times> 'r) list" where
  "extend_leaves reference residue mr [] = Inr mr"
| "extend_leaves reference residue mr (res_H_idx # H_idxs) =
     (case extend_leaf reference residue mr res_H_idx of
        Inl e \<Rightarrow> Inl e
      | Inr mr' \<Rightarrow> extend_leaves reference residue mr' H_idxs)"

text \<open>
  \<^verbatim>\<open>GM_large\<close>: a matcher on the whole residue whose \<^verbatim>\<open>core_1\<close> and \<^verbatim>\<open>core_2\<close> are
  overwritten with the two dictionaries; its inout dictionaries stay as the constructor
  left them.
\<close>

definition GM_large :: "('r \<times> 's) list \<Rightarrow> ('s \<times> 'r) list \<Rightarrow> ('r, 's) matcher" where
  "GM_large match reverse_match = initialize\<lparr>core_1 := match, core_2 := reverse_match\<rparr>"

text \<open>
  \<^verbatim>\<open>if match: matches.extend(itertools.islice(outcome, 1)) else: matches.extend(outcome)\<close>
\<close>

definition completions :: "('r \<times> 's) list \<Rightarrow> ('r \<times> 's) list generator \<Rightarrow> error + ('r \<times> 's) list list" where
  "completions match outcome = (if match \<noteq> [] then islice1 outcome else to_list outcome)"

text \<open>The body of the loop \<^verbatim>\<open>for match in first_matches\<close>: what it adds to \<^verbatim>\<open>matches\<close>.\<close>

definition complete_match ::
  "('r, 'v, 'w) graph \<Rightarrow> ('s::linorder, 'v, 'w) graph \<Rightarrow> 's list \<Rightarrow> ('r \<times> 's) list \<Rightarrow>
   error + ('r \<times> 's) list list" where
  "complete_match reference residue H_idxs match =
     (let reverse_match = dict (map (\<lambda>(k, v). (v, k)) match)
      in case extend_leaves reference residue (match, reverse_match) H_idxs of
           Inl e \<Rightarrow> Inl e
         | Inr (match', reverse_match') \<Rightarrow>
             completions match' (GM_match reference residue (GM_large match' reverse_match')))"

definition isomorphism ::
  "('r, 'v, 'w) graph \<Rightarrow> ('s::linorder, 'v, 'w) graph \<Rightarrow> error + ('r \<times> 's) list list" where
  "isomorphism reference residue =
     (let H_idxs = filter (\<lambda>idx. degree residue idx = 1) (nodes residue);
          heavy_res = remove_nodes_from H_idxs residue
      in case to_list (GM_match reference heavy_res initialize) of
           Inl e \<Rightarrow> Inl e
         | Inr first_matches \<Rightarrow>
             (case sequence (map (complete_match reference residue H_idxs) first_matches) of
                Inl e \<Rightarrow> Inl e
              | Inr found \<Rightarrow> sorted_by_rate reference residue (concat found)))"

section \<open>Graph quotient\<close>

text \<open>
  \<^verbatim>\<open>G.subgraph(idxs)\<close>: the nodes of the graph that are among \<^verbatim>\<open>idxs\<close>, and the edges
  between them.
\<close>

definition subgraph :: "('n, 'v, 'w) graph \<Rightarrow> 'n list \<Rightarrow> ('n, 'v, 'w) graph" where
  "subgraph g idxs =
     \<lparr>node = filter (\<lambda>(n, a). n \<in> set idxs) (node g),
      adj = map (\<lambda>(n, nb). (n, filter (\<lambda>(v, d). v \<in> set idxs) nb))
              (filter (\<lambda>(n, nb). n \<in> set idxs) (adj g))\<rparr>"

definition number_of_nodes :: "('n, 'v, 'w) graph \<Rightarrow> nat" where
  "number_of_nodes g = length (node g)"

text \<open>\<^verbatim>\<open>G.number_of_edges()\<close>: half the sum of the degrees.\<close>

definition size_edges :: "('n, 'v, 'w) graph \<Rightarrow> nat" where
  "size_edges g = sum_list (map (degree g) (nodes g)) div 2"

text \<open>
  \<^verbatim>\<open>nx.density(G)\<close> of an undirected graph: \<open>2 m / (n (n - 1))\<close>, and 0 without edges or with
  at most one node. Python computes it in floating point; here it is the exact quotient.
\<close>

definition density :: "('n, 'v, 'w) graph \<Rightarrow> real" where
  "density g =
     (let n = number_of_nodes g; m = size_edges g
      in if m = 0 \<or> n \<le> 1 then 0 else 2 * (real m / (real n * (real n - 1))))"

text \<open>
  \<^verbatim>\<open>G.edges(data=True)\<close>: every node in turn reports the edges to its neighbours, but
  not to a node that has reported before.
\<close>

fun edges_seen :: "'n list \<Rightarrow> ('n \<times> ('n \<times> 'w attrs) list) list \<Rightarrow> ('n \<times> 'n \<times> 'w attrs) list" where
  "edges_seen seen [] = []"
| "edges_seen seen ((n, nb) # rest) =
     map (\<lambda>(v, d). (n, v, d)) (filter (\<lambda>(v, d). v \<notin> set seen) nb) @ edges_seen (n # seen) rest"

definition edges :: "('n, 'v, 'w) graph \<Rightarrow> ('n \<times> 'n \<times> 'w attrs) list" where
  "edges g = edges_seen [] (adj g)"

text \<open>
  The values of the attributes of a node of the quotient: the subgraph, a count, the
  density, or a value the caller gave.
\<close>

datatype ('n, 'v, 'w, 'x) bead_attr =
  Subgraph "('n, 'v, 'w) graph" | Count nat | Density real | Given 'x

text \<open>
  The first loop of \<^verbatim>\<open>blockmodel\<close>, for one partition: the attributes of the new node
  \<^verbatim>\<open>bead_idx\<close>. \<^verbatim>\<open>vals[bead_idx]\<close> raises when the caller's list is too short.
\<close>

fun given_attrs ::
  "nat \<Rightarrow> ('n, 'v, 'w, 'x) bead_attr attrs \<Rightarrow> (string \<times> 'x list) list \<Rightarrow>
   error + ('n, 'v, 'w, 'x) bead_attr attrs" where
  "given_attrs bead_idx a [] = Inr a"
| "given_attrs bead_idx a ((k, vals) # rest) =
     (if bead_idx < length vals then given_attrs bead_idx (a(k \<mapsto> Given (vals ! bead_idx))) rest
      else Inl IndexError)"

definition bead_attrs ::
  "('n, 'v, 'w) graph \<Rightarrow> (string \<times> 'x list) list \<Rightarrow> nat \<Rightarrow> 'n list \<Rightarrow>
   error + ('n, 'v, 'w, 'x) bead_attr attrs" where
  "bead_attrs G attrs bead_idx idxs =
     (let bd = subgraph G idxs
      in case given_attrs bead_idx [''graph'' \<mapsto> Subgraph bd] attrs of
           Inl e \<Rightarrow> Inl e
         | Inr a \<Rightarrow> Inr (a(''nnodes'' \<mapsto> Count (number_of_nodes bd),
                          ''nedges'' \<mapsto> Count (size_edges bd),
                          ''density'' \<mapsto> Density (density bd))))"

fun add_beads ::
  "('n, 'v, 'w) graph \<Rightarrow> (string \<times> 'x list) list \<Rightarrow>
   (nat, ('n, 'v, 'w, 'x) bead_attr, 'w) graph \<Rightarrow> (nat \<times> 'n list) list \<Rightarrow>
   error + (nat, ('n, 'v, 'w, 'x) bead_attr, 'w) graph" where
  "add_beads G attrs CG_mol [] = Inr CG_mol"
| "add_beads G attrs CG_mol ((bead_idx, idxs) # rest) =
     (case bead_attrs G attrs bead_idx idxs of
        Inl e \<Rightarrow> Inl e
      | Inr a \<Rightarrow> add_beads G attrs (add_node bead_idx a CG_mol) rest)"

text \<open>
  The second loop: \<^verbatim>\<open>block_mapping.update(dict.fromkeys(nodes_in_block, n))\<close> for every
  node of the quotient. A \<^verbatim>\<open>graph\<close> attribute that the caller's attributes have
  overwritten has no \<^verbatim>\<open>nodes\<close> method.
\<close>

fun block_mapping_from ::
  "('n \<times> nat) list \<Rightarrow> (nat \<times> ('n, 'v, 'w, 'x) bead_attr attrs) list \<Rightarrow> error + ('n \<times> nat) list" where
  "block_mapping_from block_mapping [] = Inr block_mapping"
| "block_mapping_from block_mapping ((n, a) # rest) =
     (case a ''graph'' of
        Some (Subgraph bd) \<Rightarrow>
          block_mapping_from (foldl (\<lambda>bm u. AList.update u n bm) block_mapping (nodes bd)) rest
      | _ \<Rightarrow> Inl AttributeError)"

text \<open>
  The third loop, for one edge of \<^verbatim>\<open>G\<close>. The two directions of an edge of the quotient
  share one attribute dictionary, so \<^verbatim>\<open>CG_mol[bmu][bmv]['weight'] += weight\<close> changes both.
\<close>

definition block_edge ::
  "('n \<times> nat) list \<Rightarrow> error + (nat, 'y, 'w::{one,plus}) graph \<Rightarrow> 'n \<times> 'n \<times> 'w attrs \<Rightarrow>
   error + (nat, 'y, 'w) graph" where
  "block_edge block_mapping acc = (\<lambda>(u, v, d).
     case acc of
       Inl e \<Rightarrow> Inl e
     | Inr CG_mol \<Rightarrow>
         (case map_of block_mapping u of
            None \<Rightarrow> Inr CG_mol
          | Some bmu \<Rightarrow>
              (case map_of block_mapping v of
                 None \<Rightarrow> Inr CG_mol
               | Some bmv \<Rightarrow>
                   if bmu = bmv then Inr CG_mol
                   else (let weight = (case d ''weight'' of None \<Rightarrow> 1 | Some w \<Rightarrow> w)
                         in case get_edge_data CG_mol bmu bmv of
                              Some dd \<Rightarrow>
                                (case dd ''weight'' of
                                   None \<Rightarrow> Inl KeyError
                                 | Some w0 \<Rightarrow>
                                     Inr (set_adj bmv bmu (dd(''weight'' \<mapsto> w0 + weight))
                                           (set_adj bmu bmv (dd(''weight'' \<mapsto> w0 + weight)) CG_mol)))
                            | None \<Rightarrow> Inr (add_edge bmu bmv [''weight'' \<mapsto> weight] CG_mol)))))"

definition blockmodel ::
  "('n, 'v, 'w::{one,plus}) graph \<Rightarrow> 'n list list \<Rightarrow> (string \<times> 'x list) list \<Rightarrow>
   error + (nat, ('n, 'v, 'w, 'x) bead_attr, 'w) graph" where
  "blockmodel G partitions attrs =
     (case add_beads G attrs empty_graph (zip [0 ..< length partitions] partitions) of
        Inl e \<Rightarrow> Inl e
      | Inr CG_mol \<Rightarrow>
          (case block_mapping_from [] (node CG_mol) of
             Inl e \<Rightarrow> Inl e
           | Inr block_mapping \<Rightarrow> foldl (block_edge block_mapping) (Inr CG_mol) (edges G)))"

section \<open>Example graphs\<close>

text \<open>Two atoms with an atom name and two without, in two graphs without edges.\<close>

definition named_atoms :: "(nat, string, real) graph" where
  "named_atoms =
     \<lparr>node = [(1, [''atomname'' \<mapsto> ''CA'']), (2, [''atomname'' \<mapsto> ''CB'']), (3, Map.empty)],
      adj = [(1, []), (2, []), (3, [])]\<rparr>"

definition bead_atoms :: "(nat, string, real) graph" where
  "bead_atoms =
     \<lparr>node = [(1, [''atomname'' \<mapsto> ''CA'']), (2, [''atomname'' \<mapsto> ''N'']), (3, Map.empty)],
      adj = [(1, []), (2, []), (3, [])]\<rparr>"

text \<open>
  A carbon with two hydrogens, and the reference it is matched against: two such carbons
  bound to each other. The atom names of the residue are those of the second carbon of
  the reference.
\<close>

definition methylene :: "(nat, string, real) graph" where
  "methylene =
     \<lparr>node = [(1, [''element'' \<mapsto> ''C'', ''atomname'' \<mapsto> ''C1'']),
              (2, [''element'' \<mapsto> ''H'', ''atomname'' \<mapsto> ''H1'']),
              (3, [''element'' \<mapsto> ''H'', ''atomname'' \<mapsto> ''H2''])],
      adj = [(1, [(2, Map.empty), (3, Map.empty)]), (2, [(1, Map.empty)]), (3, [(1, Map.empty)])]\<rparr>"

definition ethylene :: "(nat, string, real) graph" where
  "ethylene =
     \<lparr>node = [(1, [''element'' \<mapsto> ''C'', ''atomname'' \<mapsto> ''C2'']),
              (2, [''element'' \<mapsto> ''C'', ''atomname'' \<mapsto> ''C1'']),
              (3, [''element'' \<mapsto> ''H'', ''atomname'' \<mapsto> ''H3'']),
              (4, [''element'' \<mapsto> ''H'', ''atomname'' \<mapsto> ''H4'']),
              (5, [''element'' \<mapsto> ''H'', ''atomname'' \<mapsto> ''H1'']),
              (6, [''element'' \<mapsto> ''H'', ''atomname'' \<mapsto> ''H2''])],
      adj = [(1, [(2, Map.empty), (3, Map.empty), (4, Map.empty)]),
             (2, [(1, Map.empty), (5, Map.empty), (6, Map.empty)]),
             (3, [(1, Map.empty)]), (4, [(1, Map.empty)]), (5, [(2, Map.empty)]), (6, [(2, Map.empty)])]\<rparr>"

text \<open>Two bonds between a carbon and an oxygen, with different edge attributes.\<close>

definition bond_order :: "(nat, string, real) graph" where
  "bond_order =
     \<lparr>node = [(1, [''element'' \<mapsto> ''C'']), (2, [''element'' \<mapsto> ''O''])],
      adj = [(1, [(2, [''order'' \<mapsto> 2])]), (2, [(1, [''order'' \<mapsto> 2])])]\<rparr>"

definition bond_length :: "(nat, string, real) graph" where
  "bond_length =
     \<lparr>node = [(1, [''element'' \<mapsto> ''C'']), (2, [''element'' \<mapsto> ''O''])],
      adj = [(1, [(2, [''distance'' \<mapsto> 3])]), (2, [(1, [''distance'' \<mapsto> 3])])]\<rparr>"

text \<open>Two hydrogens bound to each other: both nodes have degree one.\<close>

definition dimer :: "(nat, string, real) graph" where
  "dimer =
     \<lparr>node = [(1, [''element'' \<mapsto> ''H'']), (2, [''element'' \<mapsto> ''H''])],
      adj = [(1, [(2, Map.empty)]), (2, [(1, Map.empty)])]\<rparr>"

text \<open>
  A chain of four carbons, and a graph of three carbons of which the first is alone and
  the other two are bound to each other.
\<close>

definition chain4 :: "(nat, string, real) graph" where
  "chain4 =
     \<lparr>node = [(0, [''element'' \<mapsto> ''C'']), (1, [''element'' \<mapsto> ''C'']),
              (2, [''element'' \<mapsto> ''C'']), (3, [''element'' \<mapsto> ''C''])],
      adj = [(0, [(1, Map.empty)]), (1, [(0, Map.empty), (2, Map.empty)]),
             (2, [(1, Map.empty), (3, Map.empty)]), (3, [(2, Map.empty)])]\<rparr>"

definition lone_and_bond :: "(nat, string, real) graph" where
  "lone_and_bond =
     \<lparr>node = [(1, [''element'' \<mapsto> ''C'']), (2, [''element'' \<mapsto> ''C'']), (3, [''element'' \<mapsto> ''C''])],
      adj = [(1, []), (2, [(3, Map.empty)]), (3, [(2, Map.empty)])]\<rparr>"

text \<open>
  A carbon between two hydrogens, and a graph with a hydrogen that is alone and a
  carbon that has two hydrogens.
\<close>

definition bent :: "(nat, string, real) graph" where
  "bent =
     \<lparr>node = [(1, [''element'' \<mapsto> ''H'']), (2, [''element'' \<mapsto> ''C'']), (3, [''element'' \<mapsto> ''H''])],
      adj = [(1, [(2, Map.empty)]), (2, [(1, Map.empty), (3, Map.empty)]), (3, [(2, Map.empty)])]\<rparr>"

definition lone_hydrogen :: "(nat, string, real) graph" where
  "lone_hydrogen =
     \<lparr>node = [(1, [''element'' \<mapsto> ''H'']), (2, [''element'' \<mapsto> ''C'']),
              (3, [''element'' \<mapsto> ''H'']), (4, [''element'' \<mapsto> ''H''])],
      adj = [(1, []), (2, [(3, Map.empty), (4, Map.empty)]), (3, [(2, Map.empty)]),
             (4, [(2, Map.empty)])]\<rparr>"

text \<open>
  A carbon with one hydrogen bound to a carbon with two: the reference against which the
  carbon with two hydrogens is matched once more.
\<close>

definition vinyl :: "(nat, string, real) graph" where
  "vinyl =
     \<lparr>node = [(1, [''element'' \<mapsto> ''C'', ''atomname'' \<mapsto> ''C1'']),
              (2, [''element'' \<mapsto> ''C'', ''atomname'' \<mapsto> ''C2'']),
              (3, [''element'' \<mapsto> ''H'', ''atomname'' \<mapsto> ''H1'']),
              (4, [''element'' \<mapsto> ''H'', ''atomname'' \<mapsto> ''H2'']),
              (5, [''element'' \<mapsto> ''H'', ''atomname'' \<mapsto> ''H3''])],
      adj = [(1, [(2, Map.empty), (3, Map.empty)]),
             (2, [(1, Map.empty), (4, Map.empty), (5, Map.empty)]),
             (3, [(1, Map.empty)]), (4, [(2, Map.empty)]), (5, [(2, Map.empty)])]\<rparr>"

section \<open>Notions used in the proofs\<close>

text \<open>A graph none of whose nodes has a neighbour.\<close>

definition edgeless :: "('n, 'v, 'w) graph \<Rightarrow> bool" where
  "edgeless g \<longleftrightarrow> (\<forall>(n, nb) \<in> set (adj g). nb = [])"

text \<open>
  The test of the edge loops on a pair of product nodes, and the attributes that
  \<^verbatim>\<open>categorical_modular_product\<close> gives the edge.
\<close>

definition xnor_edge :: "('a, 'v, 'w) graph \<Rightarrow> ('b, 'v, 'w) graph \<Rightarrow> ('a \<times> 'b) \<times> ('a \<times> 'b) \<Rightarrow> bool" where
  "xnor_edge graph1 graph2 p \<longleftrightarrow>
     fst (fst p) \<noteq> fst (snd p) \<and> snd (fst p) \<noteq> snd (snd p) \<and>
     (has_edge graph1 (fst (fst p)) (fst (snd p)) \<longleftrightarrow> has_edge graph2 (snd (fst p)) (snd (snd p)))"

definition paired_edge_attrs ::
  "('a, 'v, 'w) graph \<Rightarrow> ('b, 'v, 'w) graph \<Rightarrow> ('a \<times> 'b) \<times> ('a \<times> 'b) \<Rightarrow> ('w option \<times> 'w option) attrs" where
  "paired_edge_attrs graph1 graph2 p =
     (case (get_edge_data graph1 (fst (fst p)) (fst (snd p)),
            get_edge_data graph2 (snd (fst p)) (snd (snd p))) of
        (Some d1, Some d2) \<Rightarrow> paired_attrs d1 d2
      | _ \<Rightarrow> Map.empty)"

text \<open>
  The pairs of nodes that, in the words of the spec, extend the seed of phase two of
  \<^verbatim>\<open>maximum_common_subgraph\<close>: a pair with a node of degree at most one that is
  attribute-compatible, and whose already mapped neighbour agrees between the graphs or
  that has no neighbour in one of the graphs. ``Whose already mapped neighbour agrees''
  is read in two ways: the node of \<^verbatim>\<open>graph1\<close> has a neighbour that the seed maps to a
  neighbour of the node of \<^verbatim>\<open>graph2\<close>; or every neighbour of it that the seed maps is
  mapped to a neighbour of the node of \<^verbatim>\<open>graph2\<close> (which holds when the seed maps none).
\<close>

definition claimed_leaf_pair_some ::
  "('a, 'v, 'w) graph \<Rightarrow> ('b, 'v, 'w) graph \<Rightarrow> string list \<Rightarrow> ('a \<times> 'b) list \<Rightarrow> 'a \<Rightarrow> 'b \<Rightarrow> bool" where
  "claimed_leaf_pair_some graph1 graph2 attributes match a b \<longleftrightarrow>
     (degree graph1 a \<le> 1 \<or> degree graph2 b \<le> 1) \<and>
     (\<exists>node1 node2. map_of (node graph1) a = Some node1 \<and> map_of (node graph2) b = Some node2 \<and>
        attrs_match attributes node1 node2) \<and>
     ((\<exists>n \<in> set (neighbors graph1 a). \<exists>m \<in> set (neighbors graph2 b). map_of match n = Some m) \<or>
      neighbors graph1 a = [] \<or> neighbors graph2 b = [])"

definition claimed_leaf_pair_every ::
  "('a, 'v, 'w) graph \<Rightarrow> ('b, 'v, 'w) graph \<Rightarrow> string list \<Rightarrow> ('a \<times> 'b) list \<Rightarrow> 'a \<Rightarrow> 'b \<Rightarrow> bool" where
  "claimed_leaf_pair_every graph1 graph2 attributes match a b \<longleftrightarrow>
     (degree graph1 a \<le> 1 \<or> degree graph2 b \<le> 1) \<and>
     (\<exists>node1 node2. map_of (node graph1) a = Some node1 \<and> map_of (node graph2) b = Some node2 \<and>
        attrs_match attributes node1 node2) \<and>
     ((\<forall>n \<in> set (neighbors graph1 a). \<forall>m. map_of match n = Some m \<longrightarrow> m \<in> set (neighbors graph2 b)) \<or>
      neighbors graph1 a = [] \<or> neighbors graph2 b = [])"

text \<open>
  A state of the matcher whose mapping is a dictionary between nodes of the two graphs
  that is injective, has every value as a key of the reverse dictionary, and joins nodes
  of equal \<^verbatim>\<open>element\<close> only.
\<close>

definition consistent_mapping ::
  "('r, 'v, 'w) graph \<Rightarrow> ('s, 'v, 'w) graph \<Rightarrow> ('r, 's) matcher \<Rightarrow> bool" where
  "consistent_mapping G1 G2 st \<longleftrightarrow>
     distinct (map fst (core_1 st)) \<and> distinct (map snd (core_1 st)) \<and>
     snd ` set (core_1 st) \<subseteq> fst ` set (core_2 st) \<and>
     fst ` set (core_1 st) \<subseteq> set (nodes G1) \<and> snd ` set (core_1 st) \<subseteq> set (nodes G2) \<and>
     (\<forall>(r, s) \<in> set (core_1 st).
        \<exists>e. node_attr G1 r ''element'' = Inr e \<and> node_attr G2 s ''element'' = Inr e)"

section \<open>Properties of the match ranking\<close>

lemma sequence_map_Inr_self: "sequence (map Inr xs) = Inr xs"
  by (induction xs) auto

lemma sequence_Inr_D: "sequence rs = Inr xs \<Longrightarrow> rs = map Inr xs"
proof (induction rs arbitrary: xs)
  case Nil
  then show ?case by simp
next
  case (Cons r rs)
  show ?case
  proof (cases r)
    case (Inl e)
    with Cons.prems show ?thesis by simp
  next
    case (Inr x)
    with Cons.prems obtain ys where "sequence rs = Inr ys" "xs = x # ys"
      by (auto split: sum.splits)
    with Cons.IH Inr show ?thesis by simp
  qed
qed

lemma sequence_Inr_iff: "sequence rs = Inr xs \<longleftrightarrow> rs = map Inr xs"
  using sequence_Inr_D sequence_map_Inr_self by blast

lemma sequence_map_Inr:
  "sequence (map f xs) = Inr ys \<longleftrightarrow>
     length ys = length xs \<and> (\<forall>i < length xs. f (xs ! i) = Inr (ys ! i))"
  by (auto simp: sequence_Inr_iff list_eq_iff_nth_eq)

lemma sum_of_bool_filter: "sum_list (map (\<lambda>x. of_bool (P x)) xs) = int (length (filter P xs))"
  by (induction xs) auto

lemma get_atomname_node:
  assumes "n \<in> set (nodes g)"
  shows "\<exists>a. get_atomname g n = Inr a"
proof -
  from assms have "map_of (node g) n \<noteq> None"
    by (simp add: nodes_def map_of_eq_None_iff)
  then show ?thesis by (auto simp: get_atomname_def)
qed

lemma rate_match_total:
  assumes "\<forall>(rdx, bdx) \<in> set match. rdx \<in> set (nodes residue) \<and> bdx \<in> set (nodes bead)"
  shows "rate_match residue bead match =
    Inr (int (length (filter (\<lambda>(rdx, bdx). get_atomname residue rdx = get_atomname bead bdx) match)))"
proof -
  let ?eq = "\<lambda>(rdx, bdx). get_atomname residue rdx = get_atomname bead bdx"
  have "same_atomname residue bead p = Inr (?eq p)" if "p \<in> set match" for p
  proof -
    obtain rdx bdx where p: "p = (rdx, bdx)" by (cases p)
    with that assms have "rdx \<in> set (nodes residue)" "bdx \<in> set (nodes bead)" by auto
    then obtain a b where "get_atomname residue rdx = Inr a" "get_atomname bead bdx = Inr b"
      using get_atomname_node by metis
    then show ?thesis
      by (simp add: p same_atomname_def)
  qed
  then have "map (same_atomname residue bead) match = map Inr (map ?eq match)"
    by simp
  then have "sequence (map (same_atomname residue bead) match) = Inr (map ?eq match)"
    by (simp only: sequence_Inr_iff)
  then show ?thesis
    by (simp add: rate_match_def sum_of_bool_filter o_def)
qed

lemma rate_match_Cons_None:
  assumes "get_atomname residue rdx = Inr None" and "get_atomname bead bdx = Inr None"
    and "rate_match residue bead match = Inr k"
  shows "rate_match residue bead ((rdx, bdx) # match) = Inr (k + 1)"
  using assms by (auto simp: rate_match_def same_atomname_def split: sum.splits)

lemma sorted_by_rate_best_first:
  assumes "sorted_by_rate reference residue matches = Inr result"
  shows "mset result = mset matches \<and>
    (\<forall>i j. i < j \<and> j < length result \<longrightarrow>
       (\<exists>a b. rate_match reference residue (result ! i) = Inr a \<and>
              rate_match reference residue (result ! j) = Inr b \<and> b \<le> a))"
proof -
  from assms obtain keys where keys: "sequence (map (rate_match reference residue) matches) = Inr keys"
    and result: "result = map snd (sort_key (\<lambda>(k, m). - k) (zip keys matches))"
    by (auto simp: sorted_by_rate_def split: sum.splits)
  define zs where "zs = sort_key (\<lambda>(k, m). - k) (zip keys matches)"
  from keys have len: "length keys = length matches"
    and rate: "\<And>i. i < length matches \<Longrightarrow> rate_match reference residue (matches ! i) = Inr (keys ! i)"
    by (simp_all add: sequence_map_Inr)
  have mz: "mset zs = mset (zip keys matches)"
    by (simp add: zs_def)
  have "mset (map snd zs) = mset (map snd (zip keys matches))"
    using mz by (metis mset_map)
  then have m: "mset result = mset matches"
    using len by (simp add: result zs_def)
  have inz: "rate_match reference residue m = Inr k" if "(k, m) \<in> set zs" for k m
  proof -
    from that mz have "(k, m) \<in> set (zip keys matches)" by (metis set_mset_mset)
    then obtain i where "i < length matches" "keys ! i = k" "matches ! i = m"
      by (auto simp: set_zip)
    with rate show ?thesis by auto
  qed
  have srt: "sorted (map (\<lambda>(k, m). - k) zs)"
    by (simp add: zs_def)
  have "\<exists>a b. rate_match reference residue (result ! i) = Inr a \<and>
              rate_match reference residue (result ! j) = Inr b \<and> b \<le> a"
    if "i < j" "j < length result" for i j
  proof -
    from that have ij: "i < length zs" "j < length zs" by (simp_all add: result zs_def)
    obtain a m1 where zi: "zs ! i = (a, m1)" by (cases "zs ! i")
    obtain b m2 where zj: "zs ! j = (b, m2)" by (cases "zs ! j")
    have "(a, m1) \<in> set zs" "(b, m2) \<in> set zs"
      using ij zi zj by (metis nth_mem)+
    then have r: "rate_match reference residue m1 = Inr a" "rate_match reference residue m2 = Inr b"
      using inz by blast+
    have "map (\<lambda>(k, m). - k) zs ! i \<le> map (\<lambda>(k, m). - k) zs ! j"
      using srt that(1) ij by (simp add: sorted_iff_nth_mono)
    then have "b \<le> a" using ij zi zj by simp
    moreover have "result ! i = m1" "result ! j = m2"
      using ij zi zj by (simp_all add: result zs_def [symmetric])
    ultimately show ?thesis using r by blast
  qed
  with m show ?thesis by blast
qed

lemma isomorphism_sorted_by_rate:
  assumes "isomorphism reference residue = Inr result"
  shows "\<exists>matches. sorted_by_rate reference residue matches = Inr result"
  using assms by (auto simp: isomorphism_def Let_def split: sum.splits)

text \<open>
  Claim C10. \<^verbatim>\<open>rate_match(residue, bead, match)\<close> returns the number of pairs of the match
  whose two nodes have equal \<^verbatim>\<open>atomname\<close>, where a node without the attribute reads as
  \<^verbatim>\<open>None\<close> and nothing is raised for it. So a pair of two nodes that both lack the attribute
  counts (one more than the score of the rest of the match). \<^verbatim>\<open>isomorphism\<close> returns its
  matches sorted by this score, best first.
\<close>

theorem rate_match_counts_equal_atomnames:
  "((\<forall>(rdx, bdx) \<in> set match. rdx \<in> set (nodes residue) \<and> bdx \<in> set (nodes bead)) \<longrightarrow>
      rate_match residue bead match =
        Inr (int (length (filter (\<lambda>(rdx, bdx). get_atomname residue rdx = get_atomname bead bdx) match)))) \<and>
   (get_atomname residue rdx = Inr None \<and> get_atomname bead bdx = Inr None \<and>
      rate_match residue bead match = Inr k \<longrightarrow>
      rate_match residue bead ((rdx, bdx) # match) = Inr (k + 1)) \<and>
   (isomorphism reference (res :: ('s::linorder, 'v, 'w) graph) = Inr result \<longrightarrow>
      (\<forall>i j. i < j \<and> j < length result \<longrightarrow>
         (\<exists>a b. rate_match reference res (result ! i) = Inr a \<and>
                rate_match reference res (result ! j) = Inr b \<and> b \<le> a)))"
  using rate_match_total [of match residue bead] rate_match_Cons_None [of residue rdx bead bdx match k]
    isomorphism_sorted_by_rate [of reference res result] sorted_by_rate_best_first [of reference res _ result]
  by blast

theorem rate_match_counts_equal_atomnames_witness:
  "rate_match named_atoms bead_atoms [(1, 1), (2, 2)] = Inr 1 \<and>
   rate_match named_atoms bead_atoms [(3, 3), (1, 1), (2, 2)] = Inr 2 \<and>
   isomorphism ethylene methylene = Inr [[(2, 1), (5, 2), (6, 3)], [(1, 1), (3, 2), (4, 3)]] \<and>
   (\<exists>a b. rate_match ethylene methylene [(2, 1), (5, 2), (6, 3)] = Inr a \<and>
          rate_match ethylene methylene [(1, 1), (3, 2), (4, 3)] = Inr b \<and> b \<le> a)"
proof -
  let ?m = "[(1, 1), (2, 2)] :: (nat \<times> nat) list"
  let ?r = "[[(2, 1), (5, 2), (6, 3)], [(1, 1), (3, 2), (4, 3)]] :: (nat \<times> nat) list list"
  note T = rate_match_counts_equal_atomnames
    [of ?m named_atoms bead_atoms 3 3 1 ethylene methylene ?r]
  have h1: "\<forall>(rdx, bdx) \<in> set ?m. rdx \<in> set (nodes named_atoms) \<and> bdx \<in> set (nodes bead_atoms)"
    by (simp add: nodes_def named_atoms_def bead_atoms_def)
  have h2: "get_atomname named_atoms 3 = Inr None" "get_atomname bead_atoms 3 = Inr None"
    by (simp_all add: get_atomname_def named_atoms_def bead_atoms_def)
  have h3: "isomorphism ethylene methylene = Inr ?r"
    by code_simp
  from T h1 have "rate_match named_atoms bead_atoms ?m =
      Inr (int (length (filter (\<lambda>(rdx, bdx). get_atomname named_atoms rdx = get_atomname bead_atoms bdx) ?m)))"
    by blast
  then have a: "rate_match named_atoms bead_atoms ?m = Inr 1"
    by (simp add: get_atomname_def named_atoms_def bead_atoms_def)
  from T h2 a have b: "rate_match named_atoms bead_atoms ((3, 3) # ?m) = Inr 2"
    by simp
  from T h3 have "\<exists>a b. rate_match ethylene methylene (?r ! 0) = Inr a \<and>
      rate_match ethylene methylene (?r ! 1) = Inr b \<and> b \<le> a"
    by (metis One_nat_def lessI length_Cons list.size(3) zero_less_one)
  then have c: "\<exists>a b. rate_match ethylene methylene [(2, 1), (5, 2), (6, 3)] = Inr a \<and>
      rate_match ethylene methylene [(1, 1), (3, 2), (4, 3)] = Inr b \<and> b \<le> a"
    by simp
  from a b h3 c show ?thesis by simp
qed

section \<open>Properties of the graph operations\<close>

lemma nbrs_set_adj: "nbrs (set_adj u v d g) x = (if x = u then AList.update v d (nbrs g u) else nbrs g x)"
  by (simp add: set_adj_def nbrs_def update_conv')

lemma node_set_adj: "node (set_adj u v d g) = node g"
  by (simp add: set_adj_def)

lemma get_edge_data_set_adj:
  "get_edge_data (set_adj u v d g) x y =
     (if x = u \<and> y = v then Some d else get_edge_data g x y)"
  by (simp add: get_edge_data_def nbrs_set_adj update_conv')

lemma add_edge_existing:
  assumes "map_of (node g) u \<noteq> None" "map_of (node g) v \<noteq> None"
  shows "add_edge u v a g =
    set_adj v u ((case get_edge_data g u v of None \<Rightarrow> Map.empty | Some d \<Rightarrow> d) ++ a)
      (set_adj u v ((case get_edge_data g u v of None \<Rightarrow> Map.empty | Some d \<Rightarrow> d) ++ a) g)"
proof -
  from assms obtain au av where "map_of (node g) u = Some au" "map_of (node g) v = Some av"
    by auto
  then show ?thesis
    by (simp add: add_edge_def Let_def)
qed

lemma node_add_edge_existing:
  assumes "map_of (node g) u \<noteq> None" "map_of (node g) v \<noteq> None"
  shows "node (add_edge u v a g) = node g"
  by (simp add: add_edge_existing [OF assms] node_set_adj)

lemma get_edge_data_set_adj2:
  "get_edge_data (set_adj v u D (set_adj u v D g)) x y =
     (if (x = u \<and> y = v) \<or> (x = v \<and> y = u) then Some D else get_edge_data g x y)"
  apply (simp only: get_edge_data_set_adj)
  apply (cases "x = u \<and> y = v")
   apply (simp (no_asm_simp))
  apply (cases "x = v \<and> y = u")
   apply (simp (no_asm_simp))
  apply (simp (no_asm_simp))
  done

lemma get_edge_data_add_edge:
  assumes "map_of (node g) u \<noteq> None" "map_of (node g) v \<noteq> None"
  shows "get_edge_data (add_edge u v a g) x y =
     (if (x = u \<and> y = v) \<or> (x = v \<and> y = u)
      then Some ((case get_edge_data g u v of None \<Rightarrow> Map.empty | Some d \<Rightarrow> d) ++ a)
      else get_edge_data g x y)"
  by (subst add_edge_existing [OF assms]) (rule get_edge_data_set_adj2)

lemma has_edge_add_edge:
  assumes "map_of (node g) u \<noteq> None" "map_of (node g) v \<noteq> None"
  shows "has_edge (add_edge u v a g) x y \<longleftrightarrow> has_edge g x y \<or> (x = u \<and> y = v) \<or> (x = v \<and> y = u)"
proof (cases "(x = u \<and> y = v) \<or> (x = v \<and> y = u)")
  case True
  then show ?thesis
    unfolding has_edge_def get_edge_data_add_edge [OF assms] by (simp (no_asm_simp))
next
  case False
  then show ?thesis
    unfolding has_edge_def get_edge_data_add_edge [OF assms] by (simp (no_asm_simp))
qed

lemma nodes_add_node: "set (nodes (add_node n a g)) = insert n (set (nodes g))"
proof (cases "map_of (node g) n")
  case None
  then show ?thesis
    by (simp add: add_node_def nodes_def AList.dom_update)
next
  case (Some old)
  then have "n \<in> fst ` set (node g)"
    by (force dest: map_of_SomeD)
  with Some show ?thesis
    by (auto simp: add_node_def nodes_def AList.dom_update)
qed

lemma distinct_nodes_add_node: "distinct (nodes g) \<Longrightarrow> distinct (nodes (add_node n a g))"
  by (auto simp: add_node_def nodes_def distinct_update split: option.splits)

lemma mem_nodes_iff: "n \<in> set (nodes g) \<longleftrightarrow> map_of (node g) n \<noteq> None"
  by (simp add: nodes_def map_of_eq_None_iff)

lemma edgeless_empty: "edgeless empty_graph"
  by (simp add: edgeless_def empty_graph_def)

lemma set_update_subset: "set (AList.update k v al) \<subseteq> insert (k, v) (set al)"
  by (induction al) auto

lemma edgeless_add_node: "edgeless g \<Longrightarrow> edgeless (add_node n a g)"
  using set_update_subset [of n "[]" "adj g"]
  by (fastforce simp: edgeless_def add_node_def split: option.splits)

lemma edgeless_no_edge: "edgeless g \<Longrightarrow> get_edge_data g x y = None"
proof -
  assume e: "edgeless g"
  have "nbrs g x = []"
  proof (cases "map_of (adj g) x")
    case None
    then show ?thesis by (simp add: nbrs_def)
  next
    case (Some nb)
    then have "(x, nb) \<in> set (adj g)" by (rule map_of_SomeD)
    with e have "nb = []" by (auto simp: edgeless_def)
    with Some show ?thesis by (simp add: nbrs_def)
  qed
  then show ?thesis by (simp add: get_edge_data_def)
qed

lemma fold_nodes_set:
  "set (nodes (foldl (\<lambda>g p. if c p then add_node (k p) (v p) g else g) g0 ps))
     = set (nodes g0) \<union> k ` {p \<in> set ps. c p}"
  by (induction ps arbitrary: g0) (auto simp: nodes_add_node)

lemma fold_nodes_distinct:
  "distinct (nodes g0) \<Longrightarrow> distinct (nodes (foldl (\<lambda>g p. if c p then add_node (k p) (v p) g else g) g0 ps))"
  by (induction ps arbitrary: g0) (auto simp: distinct_nodes_add_node)

lemma fold_nodes_edgeless:
  "edgeless g0 \<Longrightarrow> edgeless (foldl (\<lambda>g p. if c p then add_node (k p) (v p) g else g) g0 ps)"
  by (induction ps arbitrary: g0) (auto simp: edgeless_add_node)

subsection \<open>Pairs of nodes\<close>

lemma combinations2_mem: "(x, y) \<in> set (combinations2 xs) \<Longrightarrow> x \<in> set xs \<and> y \<in> set xs"
  by (induction xs) auto

lemma combinations2_complete:
  "x \<in> set xs \<Longrightarrow> y \<in> set xs \<Longrightarrow> x \<noteq> y \<Longrightarrow>
     (x, y) \<in> set (combinations2 xs) \<or> (y, x) \<in> set (combinations2 xs)"
  by (induction xs) auto

subsection \<open>A loop that adds edges between nodes of the graph\<close>

lemma fold_add_edge:
  fixes c :: "'n \<times> 'n \<Rightarrow> bool" and A :: "'n \<times> 'n \<Rightarrow> 'w attrs"
  assumes step: "\<And>g p. step g p = (if c p then add_edge (fst p) (snd p) (A p) g else g)"
    and es: "\<forall>p \<in> set es. fst p \<in> set (nodes g) \<and> snd p \<in> set (nodes g)"
  shows "node (foldl step g es) = node g \<and>
    (\<forall>x y. has_edge (foldl step g es) x y \<longleftrightarrow>
        has_edge g x y \<or> (\<exists>p \<in> set es. c p \<and> (p = (x, y) \<or> p = (y, x))))"
  using es
proof (induction es arbitrary: g)
  case Nil
  then show ?case by simp
next
  case (Cons p es)
  obtain u v where p: "p = (u, v)" by (cases p)
  from Cons.prems p have uv: "map_of (node g) u \<noteq> None" "map_of (node g) v \<noteq> None"
    by (simp_all add: mem_nodes_iff)
  let ?g = "step g p"
  have n: "node ?g = node g"
    using uv by (simp add: step p node_add_edge_existing)
  have e: "has_edge ?g x y \<longleftrightarrow> has_edge g x y \<or> (c p \<and> (p = (x, y) \<or> p = (y, x)))" for x y
  proof (cases "c p")
    case True
    then have "?g = add_edge u v (A p) g" by (simp add: step p)
    moreover have "(p = (x, y) \<or> p = (y, x)) \<longleftrightarrow> (x = u \<and> y = v) \<or> (x = v \<and> y = u)"
      unfolding p prod.inject by blast
    ultimately show ?thesis
      using True has_edge_add_edge [OF uv, of "A p" x y] by (simp (no_asm_simp))
  next
    case False
    then show ?thesis by (simp add: step)
  qed
  from Cons.prems n have "\<forall>q \<in> set es. fst q \<in> set (nodes ?g) \<and> snd q \<in> set (nodes ?g)"
    by (simp add: nodes_def)
  from Cons.IH [OF this] n e show ?case
    by auto
qed

lemma fold_add_edge_data:
  fixes c :: "'n \<times> 'n \<Rightarrow> bool" and A :: "'n \<times> 'n \<Rightarrow> 'w attrs"
  assumes step: "\<And>g p. step g p = (if c p then add_edge (fst p) (snd p) (A p) g else g)"
    and es: "\<forall>p \<in> set es. fst p \<in> set (nodes g) \<and> snd p \<in> set (nodes g)"
    and sym: "\<And>x y. A (x, y) = A (y, x)"
    and inv: "\<And>x y d. get_edge_data g x y = Some d \<Longrightarrow> d = A (x, y)"
  shows "get_edge_data (foldl step g es) x y = Some d \<Longrightarrow> d = A (x, y)"
  using es inv
proof (induction es arbitrary: g)
  case Nil
  then show ?case by simp
next
  case (Cons p es)
  obtain u v where p: "p = (u, v)" by (cases p)
  from Cons.prems(2) p have uv: "map_of (node g) u \<noteq> None" "map_of (node g) v \<noteq> None"
    by (simp_all add: mem_nodes_iff)
  let ?g = "step g p"
  have n: "node ?g = node g"
    using uv by (simp add: step p node_add_edge_existing)
  have self: "m ++ m = m" for m :: "'w attrs"
    by (simp add: map_add_def fun_eq_iff split: option.splits)
  have old: "(case get_edge_data g u v of None \<Rightarrow> Map.empty | Some d \<Rightarrow> d) ++ A (u, v) = A (u, v)"
    using Cons.prems(3) [of u v] self by (auto split: option.splits)
  have inv': "d' = A (x', y')" if g': "get_edge_data ?g x' y' = Some d'" for x' y' d'
  proof (cases "c p")
    case False
    with g' have "get_edge_data g x' y' = Some d'" by (simp add: step)
    then show ?thesis by (rule Cons.prems(3))
  next
    case True
    then have sg: "?g = add_edge u v (A (u, v)) g" by (simp add: step p)
    have eqd: "get_edge_data ?g x' y' =
        (if (x' = u \<and> y' = v) \<or> (x' = v \<and> y' = u) then Some (A (u, v)) else get_edge_data g x' y')"
      unfolding sg get_edge_data_add_edge [OF uv] old ..
    show ?thesis
    proof (cases "(x' = u \<and> y' = v) \<or> (x' = v \<and> y' = u)")
      case True
      then have "get_edge_data ?g x' y' = Some (A (u, v))"
        unfolding eqd by (rule if_P)
      with g' have "d' = A (u, v)" by simp
      with True sym [of u v] show ?thesis by blast
    next
      case False
      then have "get_edge_data ?g x' y' = get_edge_data g x' y'"
        unfolding eqd by (rule if_not_P)
      with g' have "get_edge_data g x' y' = Some d'" by simp
      then show ?thesis by (rule Cons.prems(3))
    qed
  qed
  from Cons.prems(2) n have "\<forall>q \<in> set es. fst q \<in> set (nodes ?g) \<and> snd q \<in> set (nodes ?g)"
    by (simp add: nodes_def)
  from Cons.IH [OF _ this inv'] Cons.prems(1) show ?case
    by simp
qed


subsection \<open>Undirected graphs\<close>

lemma wf_get_edge_data_Some:
  assumes "wf_graph g" "get_edge_data g u v = Some d"
  shows "get_edge_data g v u = Some d"
proof -
  from assms(2) have vd: "(v, d) \<in> set (nbrs g u)"
    unfolding get_edge_data_def by (rule map_of_SomeD)
  then have "nbrs g u \<noteq> []" by auto
  then obtain nb where nb: "map_of (adj g) u = Some nb" "nbrs g u = nb"
    by (auto simp: nbrs_def split: option.splits)
  then have "(u, nb) \<in> set (adj g)" by (auto dest: map_of_SomeD)
  with assms(1) vd nb(2) show ?thesis
    unfolding wf_graph_def by blast
qed

lemma wf_get_edge_data_sym:
  assumes "wf_graph g"
  shows "get_edge_data g u v = get_edge_data g v u"
proof (cases "get_edge_data g u v")
  case (Some d)
  with wf_get_edge_data_Some [OF assms] show ?thesis by metis
next
  case None
  show ?thesis
  proof (cases "get_edge_data g v u")
    case None
    with \<open>get_edge_data g u v = None\<close> show ?thesis by simp
  next
    case (Some d)
    with wf_get_edge_data_Some [OF assms] have "get_edge_data g u v = Some d" by metis
    with None show ?thesis by simp
  qed
qed

lemma wf_has_edge_sym: "wf_graph g \<Longrightarrow> has_edge g u v = has_edge g v u"
  unfolding has_edge_def using wf_get_edge_data_sym [of g u v] by simp

section \<open>Properties of the product graphs\<close>

lemma modular_step_eq:
  "modular_step graph1 graph2 g p =
     (if xnor_edge graph1 graph2 p then add_edge (fst p) (snd p) (paired_edge_attrs graph1 graph2 p) g else g)"
proof -
  obtain a1 b1 a2 b2 where p: "p = ((a1, b1), (a2, b2))" by (metis surj_pair)
  show ?thesis
    unfolding p modular_step_def xnor_edge_def paired_edge_attrs_def Let_def
    by (simp (no_asm) add: case_prod_beta)
qed

lemma xnor_step_eq:
  "xnor_step graph1 graph2 g p =
     (if xnor_edge graph1 graph2 p then add_edge (fst p) (snd p) Map.empty g else g)"
proof -
  obtain a1 b1 a2 b2 where p: "p = ((a1, b1), (a2, b2))" by (metis surj_pair)
  show ?thesis
    unfolding p xnor_step_def xnor_edge_def Let_def
    by (simp (no_asm) add: case_prod_beta)
qed

lemma xnor_edge_sym:
  assumes "wf_graph graph1" "wf_graph graph2"
  shows "xnor_edge graph1 graph2 (y, x) = xnor_edge graph1 graph2 (x, y)"
  unfolding xnor_edge_def fst_conv snd_conv
  using wf_has_edge_sym [OF assms(1), of "fst x" "fst y"] wf_has_edge_sym [OF assms(2), of "snd x" "snd y"]
  by metis

lemma paired_edge_attrs_sym:
  assumes "wf_graph graph1" "wf_graph graph2"
  shows "paired_edge_attrs graph1 graph2 (y, x) = paired_edge_attrs graph1 graph2 (x, y)"
  unfolding paired_edge_attrs_def fst_conv snd_conv
  using wf_get_edge_data_sym [OF assms(1), of "fst x" "fst y"] wf_get_edge_data_sym [OF assms(2), of "snd x" "snd y"]
  by simp

lemma cartesian_fold_eq:
  "categorical_cartesian_product graph1 graph2 attributes =
     foldl (\<lambda>g p. if attrs_match attributes (snd (fst p)) (snd (snd p))
                   then add_node (fst (fst p), fst (snd p)) (paired_attrs (snd (fst p)) (snd (snd p))) g
                   else g)
       empty_graph (List.product (node graph1) (node graph2))"
  unfolding categorical_cartesian_product_def
  by (rule arg_cong [where f = "\<lambda>f. foldl f _ _"]) (auto simp: fun_eq_iff)

lemma attrs_match_iff:
  "attrs_match attributes node1 node2 \<longleftrightarrow>
     (\<forall>attr \<in> set attributes. \<exists>v. node1 attr = Some v \<and> node2 attr = Some v)"
  unfolding attrs_match_def list_all_iff by (intro ball_cong refl) auto

lemma nodes_cartesian:
  "set (nodes (categorical_cartesian_product graph1 graph2 attributes)) =
     {(a, b). \<exists>node1 node2. (a, node1) \<in> set (node graph1) \<and> (b, node2) \<in> set (node graph2) \<and>
        attrs_match attributes node1 node2}"
  (is "?L = ?R")
proof -
  let ?k = "\<lambda>p :: ('a \<times> 'c attrs) \<times> ('b \<times> 'c attrs). (fst (fst p), fst (snd p))"
  let ?c = "\<lambda>p :: ('a \<times> 'c attrs) \<times> ('b \<times> 'c attrs). attrs_match attributes (snd (fst p)) (snd (snd p))"
  have L: "?L = ?k ` {p \<in> set (List.product (node graph1) (node graph2)). ?c p}"
    unfolding cartesian_fold_eq fold_nodes_set by (simp add: nodes_def empty_graph_def)
  show ?thesis
  proof (intro set_eqI iffI)
    fix x assume "x \<in> ?L"
    with L obtain p where p: "p \<in> set (List.product (node graph1) (node graph2))" "?c p" "x = ?k p"
      by auto
    obtain a n1 b n2 where "p = ((a, n1), (b, n2))" by (metis surj_pair)
    with p show "x \<in> ?R" by auto
  next
    fix x assume "x \<in> ?R"
    then obtain a b n1 n2 where x: "x = (a, b)" "(a, n1) \<in> set (node graph1)"
      "(b, n2) \<in> set (node graph2)" "attrs_match attributes n1 n2"
      by auto
    then have "((a, n1), (b, n2)) \<in> {p \<in> set (List.product (node graph1) (node graph2)). ?c p}"
      by simp
    then have "?k ((a, n1), (b, n2)) \<in> ?L"
      unfolding L by (rule imageI)
    with x(1) show "x \<in> ?L" by simp
  qed
qed

lemma distinct_cartesian: "distinct (nodes (categorical_cartesian_product graph1 graph2 attributes))"
  unfolding cartesian_fold_eq
  by (rule fold_nodes_distinct) (simp add: nodes_def empty_graph_def)

lemma edgeless_cartesian: "edgeless (categorical_cartesian_product graph1 graph2 attributes)"
  unfolding cartesian_fold_eq
  by (rule fold_nodes_edgeless) (rule edgeless_empty)


lemma modular_product_fold:
  fixes graph1 :: "('a, 'v, 'w) graph" and graph2 :: "('b, 'v, 'w) graph" and attributes :: "string list"
  defines "P \<equiv> categorical_cartesian_product graph1 graph2 attributes"
  defines "M \<equiv> categorical_modular_product graph1 graph2 attributes"
  shows "node M = node P"
    and "has_edge M x y \<longleftrightarrow>
      (\<exists>p \<in> set (combinations2 (nodes P)). xnor_edge graph1 graph2 p \<and> (p = (x, y) \<or> p = (y, x)))"
    and "wf_graph graph1 \<Longrightarrow> wf_graph graph2 \<Longrightarrow> get_edge_data M x y = Some d \<Longrightarrow>
      d = paired_edge_attrs graph1 graph2 (x, y)"
proof -
  have M: "M = foldl (modular_step graph1 graph2) P (combinations2 (nodes P))"
    unfolding M_def P_def categorical_modular_product_def Let_def ..
  have es: "\<forall>p \<in> set (combinations2 (nodes P)). fst p \<in> set (nodes P) \<and> snd p \<in> set (nodes P)"
    using combinations2_mem by fastforce
  have noedge: "get_edge_data P u v = None" for u v
    unfolding P_def by (rule edgeless_no_edge) (rule edgeless_cartesian)
  note F = fold_add_edge [of "modular_step graph1 graph2" "xnor_edge graph1 graph2"
      "paired_edge_attrs graph1 graph2", OF modular_step_eq es]
  from F show "node M = node P"
    unfolding M by blast
  from F have "has_edge M x y \<longleftrightarrow> has_edge P x y \<or>
      (\<exists>p \<in> set (combinations2 (nodes P)). xnor_edge graph1 graph2 p \<and> (p = (x, y) \<or> p = (y, x)))"
    unfolding M by blast
  then show "has_edge M x y \<longleftrightarrow>
      (\<exists>p \<in> set (combinations2 (nodes P)). xnor_edge graph1 graph2 p \<and> (p = (x, y) \<or> p = (y, x)))"
    by (simp add: has_edge_def noedge)
  assume wf: "wf_graph graph1" "wf_graph graph2" and d: "get_edge_data M x y = Some d"
  show "d = paired_edge_attrs graph1 graph2 (x, y)"
  proof (rule fold_add_edge_data [of "modular_step graph1 graph2" "xnor_edge graph1 graph2"
      "paired_edge_attrs graph1 graph2", OF modular_step_eq es])
    show "paired_edge_attrs graph1 graph2 (u, v) = paired_edge_attrs graph1 graph2 (v, u)" for u v
      by (rule paired_edge_attrs_sym [OF wf, symmetric])
    show "get_edge_data P u v = Some d' \<Longrightarrow> d' = paired_edge_attrs graph1 graph2 (u, v)" for u v d'
      by (simp add: noedge)
    show "get_edge_data (foldl (modular_step graph1 graph2) P (combinations2 (nodes P))) x y = Some d"
      using d unfolding M .
  qed
qed

lemma wf_node_iff: "wf_graph g \<Longrightarrow> (a, n) \<in> set (node g) \<longleftrightarrow> map_of (node g) a = Some n"
  by (simp add: wf_graph_def)

text \<open>
  Claim C2. For undirected graphs, the nodes of \<^verbatim>\<open>categorical_modular_product(graph1, graph2, attributes)\<close>
  are exactly the pairs of a node of each graph on which every selected attribute is
  present and equal, each pair once. Two nodes of the product are joined exactly when
  their first components differ, their second components differ, and the first
  components are adjacent in \<^verbatim>\<open>graph1\<close> if and only if the second ones are in \<^verbatim>\<open>graph2\<close>.
  When both source edges exist, the edge of the product maps every attribute of either
  source edge to the pair of the two values, \<^verbatim>\<open>None\<close> standing for a missing one.
\<close>

theorem categorical_modular_product_nodes_and_edges:
  fixes graph1 :: "('a, 'v, 'w) graph" and graph2 :: "('b, 'v, 'w) graph"
  assumes "wf_graph graph1" and "wf_graph graph2"
  shows "distinct (nodes (categorical_modular_product graph1 graph2 attributes)) \<and>
    set (nodes (categorical_modular_product graph1 graph2 attributes)) =
      {(a, b). \<exists>node1 node2. map_of (node graph1) a = Some node1 \<and> map_of (node graph2) b = Some node2 \<and>
         (\<forall>attr \<in> set attributes. \<exists>v. node1 attr = Some v \<and> node2 attr = Some v)} \<and>
    (\<forall>a1 b1 a2 b2.
       has_edge (categorical_modular_product graph1 graph2 attributes) (a1, b1) (a2, b2) \<longleftrightarrow>
         (a1, b1) \<in> set (nodes (categorical_modular_product graph1 graph2 attributes)) \<and>
         (a2, b2) \<in> set (nodes (categorical_modular_product graph1 graph2 attributes)) \<and>
         a1 \<noteq> a2 \<and> b1 \<noteq> b2 \<and> (has_edge graph1 a1 a2 \<longleftrightarrow> has_edge graph2 b1 b2)) \<and>
    (\<forall>a1 b1 a2 b2 d1 d2.
       has_edge (categorical_modular_product graph1 graph2 attributes) (a1, b1) (a2, b2) \<and>
       get_edge_data graph1 a1 a2 = Some d1 \<and> get_edge_data graph2 b1 b2 = Some d2 \<longrightarrow>
         get_edge_data (categorical_modular_product graph1 graph2 attributes) (a1, b1) (a2, b2) =
           Some (\<lambda>attr. if attr \<in> dom d1 \<union> dom d2 then Some (d1 attr, d2 attr) else None))"
proof -
  define P where "P = categorical_cartesian_product graph1 graph2 attributes"
  define M where "M = categorical_modular_product graph1 graph2 attributes"
  note MP = modular_product_fold [of graph1 graph2 attributes, folded P_def M_def]
  have nM: "nodes M = nodes P"
    by (simp add: nodes_def MP(1))
  have dist: "distinct (nodes M)"
    unfolding nM P_def by (rule distinct_cartesian)
  have nodes: "set (nodes M) =
      {(a, b). \<exists>node1 node2. map_of (node graph1) a = Some node1 \<and> map_of (node graph2) b = Some node2 \<and>
         (\<forall>attr \<in> set attributes. \<exists>v. node1 attr = Some v \<and> node2 attr = Some v)}"
    unfolding nM P_def nodes_cartesian attrs_match_iff
    by (simp add: wf_node_iff [OF assms(1)] wf_node_iff [OF assms(2)])
  have edges: "has_edge M (a1, b1) (a2, b2) \<longleftrightarrow>
      (a1, b1) \<in> set (nodes M) \<and> (a2, b2) \<in> set (nodes M) \<and>
      a1 \<noteq> a2 \<and> b1 \<noteq> b2 \<and> (has_edge graph1 a1 a2 \<longleftrightarrow> has_edge graph2 b1 b2)"
    (is "?L \<longleftrightarrow> ?R") for a1 b1 a2 b2
  proof
    assume ?L
    then obtain p where p: "p \<in> set (combinations2 (nodes P))" "xnor_edge graph1 graph2 p"
      "p = ((a1, b1), (a2, b2)) \<or> p = ((a2, b2), (a1, b1))"
      unfolding MP(2) by blast
    from p(1,3) have "(a1, b1) \<in> set (nodes P) \<and> (a2, b2) \<in> set (nodes P)"
      using combinations2_mem by fastforce
    moreover from p(2,3) have "xnor_edge graph1 graph2 ((a1, b1), (a2, b2))"
      using xnor_edge_sym [OF assms, of "(a2, b2)" "(a1, b1)"] by blast
    ultimately show ?R
      unfolding nM by (simp add: xnor_edge_def)
  next
    assume R: ?R
    then have x: "xnor_edge graph1 graph2 ((a1, b1), (a2, b2))"
      by (simp add: xnor_edge_def)
    then have x': "xnor_edge graph1 graph2 ((a2, b2), (a1, b1))"
      using xnor_edge_sym [OF assms, of "(a2, b2)" "(a1, b1)"] by blast
    from R have "(a1, b1) \<noteq> (a2, b2)" by simp
    with R have "((a1, b1), (a2, b2)) \<in> set (combinations2 (nodes P)) \<or>
        ((a2, b2), (a1, b1)) \<in> set (combinations2 (nodes P))"
      unfolding nM by (intro combinations2_complete) simp_all
    with x x' show ?L
      unfolding MP(2) by blast
  qed
  have data: "get_edge_data M (a1, b1) (a2, b2) =
      Some (\<lambda>attr. if attr \<in> dom d1 \<union> dom d2 then Some (d1 attr, d2 attr) else None)"
    if "has_edge M (a1, b1) (a2, b2)" "get_edge_data graph1 a1 a2 = Some d1"
      "get_edge_data graph2 b1 b2 = Some d2" for a1 b1 a2 b2 d1 d2
  proof -
    from that(1) obtain d where d: "get_edge_data M (a1, b1) (a2, b2) = Some d"
      by (auto simp: has_edge_def)
    from MP(3) [OF assms d] that(2,3) have "d = paired_attrs d1 d2"
      by (simp add: paired_edge_attrs_def)
    also have "\<dots> = (\<lambda>attr. if attr \<in> dom d1 \<union> dom d2 then Some (d1 attr, d2 attr) else None)"
      by (auto simp: paired_attrs_def fun_eq_iff)
    finally show ?thesis by (simp only: d)
  qed
  show ?thesis
    unfolding M_def [symmetric]
  proof (intro conjI allI impI)
    show "distinct (nodes M)" by (rule dist)
    show "set (nodes M) =
      {(a, b). \<exists>node1 node2. map_of (node graph1) a = Some node1 \<and> map_of (node graph2) b = Some node2 \<and>
         (\<forall>attr \<in> set attributes. \<exists>v. node1 attr = Some v \<and> node2 attr = Some v)}"
      by (rule nodes)
  next
    fix a1 b1 a2 b2
    show "has_edge M (a1, b1) (a2, b2) \<longleftrightarrow>
      (a1, b1) \<in> set (nodes M) \<and> (a2, b2) \<in> set (nodes M) \<and>
      a1 \<noteq> a2 \<and> b1 \<noteq> b2 \<and> (has_edge graph1 a1 a2 \<longleftrightarrow> has_edge graph2 b1 b2)"
      by (rule edges)
  next
    fix a1 b1 a2 b2 d1 d2
    assume "has_edge M (a1, b1) (a2, b2) \<and> get_edge_data graph1 a1 a2 = Some d1 \<and>
      get_edge_data graph2 b1 b2 = Some d2"
    then show "get_edge_data M (a1, b1) (a2, b2) =
      Some (\<lambda>attr. if attr \<in> dom d1 \<union> dom d2 then Some (d1 attr, d2 attr) else None)"
      using data by blast
  qed
qed

theorem categorical_modular_product_nodes_and_edges_witness:
  "wf_graph bond_order \<and> wf_graph bond_length \<and>
   nodes (categorical_modular_product bond_order bond_length [''element'']) = [(1, 1), (2, 2)] \<and>
   has_edge (categorical_modular_product bond_order bond_length [''element'']) (1, 1) (2, 2) \<and>
   \<not> has_edge (categorical_modular_product bond_order bond_length []) (1, 1) (2, 1) \<and>
   \<not> has_edge (categorical_modular_product bond_order bond_length []) (1, 1) (1, 2) \<and>
   get_edge_data (categorical_modular_product bond_order bond_length [''element'']) (1, 1) (2, 2) =
     Some [''order'' \<mapsto> (Some 2, None), ''distance'' \<mapsto> (None, Some 3)]"
proof -
  let ?M = "categorical_modular_product bond_order bond_length [''element'']"
  let ?N = "categorical_modular_product bond_order bond_length []"
  have w1: "wf_graph bond_order"
    by (simp add: wf_graph_def bond_order_def get_edge_data_def nbrs_def)
  have w2: "wf_graph bond_length"
    by (simp add: wf_graph_def bond_length_def get_edge_data_def nbrs_def)
  note T = categorical_modular_product_nodes_and_edges [OF w1 w2]
  have n: "nodes ?M = [(1, 1), (2, 2)]"
    by code_simp
  have e1: "has_edge bond_order 1 2" and e2: "has_edge bond_length 1 2"
    by code_simp+
  have d1: "get_edge_data bond_order 1 2 = Some [''order'' \<mapsto> 2]"
    by (simp add: bond_order_def get_edge_data_def nbrs_def)
  have d2: "get_edge_data bond_length 1 2 = Some [''distance'' \<mapsto> 3]"
    by (simp add: bond_length_def get_edge_data_def nbrs_def)
  note E = T [THEN conjunct2, THEN conjunct2, THEN conjunct1, rule_format]
  note D = T [THEN conjunct2, THEN conjunct2, THEN conjunct2, rule_format]
  have h: "has_edge ?M (1, 1) (2, 2)"
    unfolding E using n e1 e2 by simp
  have "\<not> has_edge ?N (1, 1) (2, 1)" "\<not> has_edge ?N (1, 1) (1, 2)"
    unfolding E by simp_all
  moreover from h d1 d2 have "get_edge_data ?M (1, 1) (2, 2) =
      Some (\<lambda>attr. if attr \<in> dom [''order'' \<mapsto> 2::real] \<union> dom [''distance'' \<mapsto> 3::real]
            then Some ([''order'' \<mapsto> 2] attr, [''distance'' \<mapsto> 3] attr) else None)"
    by (intro D conjI)
  moreover have "(\<lambda>attr. if attr \<in> dom [''order'' \<mapsto> 2::real] \<union> dom [''distance'' \<mapsto> 3::real]
            then Some ([''order'' \<mapsto> 2] attr, [''distance'' \<mapsto> 3] attr) else None) =
       [''order'' \<mapsto> (Some 2, None), ''distance'' \<mapsto> (None, Some 3)]"
    by (auto simp: fun_eq_iff)
  ultimately show ?thesis
    using w1 w2 n h by simp
qed

section \<open>Properties of the clique enumeration\<close>

lemma find_cliques_iff:
  "c \<in> set (find_cliques g) \<longleftrightarrow> c \<in> set (subseqs (nodes g)) \<and> is_maximal_clique g c"
  by (simp add: find_cliques_def)

lemma find_cliques_subset: "c \<in> set (find_cliques g) \<Longrightarrow> set c \<subseteq> set (nodes g)"
  using subseqs_powset [of "nodes g"] by (auto simp: find_cliques_iff)

lemma find_cliques_distinct: "distinct (nodes g) \<Longrightarrow> c \<in> set (find_cliques g) \<Longrightarrow> distinct c"
  by (auto simp: find_cliques_iff dest: subseqs_distinctD)

lemma find_cliques_empty: "nodes g = [] \<Longrightarrow> find_cliques g = []"
  by (simp add: find_cliques_def is_maximal_clique_def)

text \<open>In a graph with symmetric adjacency every clique lies in a maximal one.\<close>

lemma clique_extension:
  fixes g :: "('n, 'v, 'w) graph"
  assumes sym: "\<And>u v. has_edge g u v \<Longrightarrow> has_edge g v u"
    and C: "C \<subseteq> set (nodes g)" "\<forall>u \<in> C. \<forall>v \<in> C. u \<noteq> v \<longrightarrow> has_edge g u v"
  shows "\<exists>C'. C \<subseteq> C' \<and> C' \<subseteq> set (nodes g) \<and> (\<forall>u \<in> C'. \<forall>v \<in> C'. u \<noteq> v \<longrightarrow> has_edge g u v) \<and>
    (\<forall>n \<in> set (nodes g). n \<notin> C' \<longrightarrow> \<not> (\<forall>u \<in> C'. has_edge g u n))"
proof -
  define cl where "cl = (\<lambda>C. \<forall>u \<in> C. \<forall>v \<in> C. u \<noteq> v \<longrightarrow> has_edge g u v)"
  define ext where "ext = (\<lambda>C n. n \<in> set (nodes g) \<and> n \<notin> C \<and> (\<forall>u \<in> C. has_edge g u n))"
  have step: "cl (insert n D)" if "cl D" "ext D n" for D n
    unfolding cl_def
  proof (intro ballI impI)
    fix u v assume uv: "u \<in> insert n D" "v \<in> insert n D" "u \<noteq> v"
    show "has_edge g u v"
    proof (cases "u = n")
      case True
      with uv have "v \<in> D" by auto
      with that(2) have "has_edge g v n" by (simp add: ext_def)
      with True show ?thesis by (simp add: sym)
    next
      case False
      with uv have u: "u \<in> D" by auto
      show ?thesis
      proof (cases "v = n")
        case True
        with u that(2) show ?thesis by (simp add: ext_def)
      next
        case False
        with uv have "v \<in> D" by auto
        with u uv(3) that(1) show ?thesis by (simp add: cl_def)
      qed
    qed
  qed
  have "\<exists>C'. D \<subseteq> C' \<and> C' \<subseteq> set (nodes g) \<and> cl C' \<and> (\<forall>n. \<not> ext C' n)"
    if "card (set (nodes g) - D) = k" "D \<subseteq> set (nodes g)" "cl D" for k D
    using that
  proof (induction k arbitrary: D rule: less_induct)
    case (less k D)
    show ?case
    proof (cases "\<exists>n. ext D n")
      case False
      with less.prems(2,3) show ?thesis by auto
    next
      case True
      then obtain n where n: "ext D n" ..
      then have nn: "n \<in> set (nodes g)" "n \<notin> D" by (simp_all add: ext_def)
      then have "set (nodes g) - insert n D \<subset> set (nodes g) - D"
        by auto
      then have "card (set (nodes g) - insert n D) < k"
        unfolding less.prems(1) [symmetric] by (intro psubset_card_mono) auto
      moreover have "insert n D \<subseteq> set (nodes g)"
        using nn less.prems(2) by simp
      moreover have "cl (insert n D)"
        using less.prems(3) n by (rule step)
      ultimately have "\<exists>C'. insert n D \<subseteq> C' \<and> C' \<subseteq> set (nodes g) \<and> cl C' \<and> (\<forall>n. \<not> ext C' n)"
        using less.IH [of "card (set (nodes g) - insert n D)" "insert n D"] by simp
      then obtain C' where "insert n D \<subseteq> C'" "C' \<subseteq> set (nodes g)" "cl C'" "\<forall>n. \<not> ext C' n"
        by (elim exE conjE)
      then have "D \<subseteq> C' \<and> C' \<subseteq> set (nodes g) \<and> cl C' \<and> (\<forall>n. \<not> ext C' n)"
        by simp
      then show ?thesis ..
    qed
  qed
  from C(2) have "cl C" by (simp add: cl_def)
  from \<open>\<And>k D. card (set (nodes g) - D) = k \<Longrightarrow> D \<subseteq> set (nodes g) \<Longrightarrow> cl D \<Longrightarrow>
      \<exists>C'. D \<subseteq> C' \<and> C' \<subseteq> set (nodes g) \<and> cl C' \<and> (\<forall>n. \<not> ext C' n)\<close> [OF refl C(1) this]
  obtain C' where C': "C \<subseteq> C'" "C' \<subseteq> set (nodes g)" "cl C'" "\<forall>n. \<not> ext C' n"
    by (elim exE conjE)
  have "\<forall>n \<in> set (nodes g). n \<notin> C' \<longrightarrow> \<not> (\<forall>u \<in> C'. has_edge g u n)"
  proof (intro ballI impI)
    fix n assume "n \<in> set (nodes g)" "n \<notin> C'"
    with C'(4) show "\<not> (\<forall>u \<in> C'. has_edge g u n)"
      unfolding ext_def by blast
  qed
  with C'(1,2,3) show ?thesis
    unfolding cl_def by blast
qed

lemma find_cliques_covers:
  fixes g :: "('n, 'v, 'w) graph"
  assumes sym: "\<And>u v. has_edge g u v \<Longrightarrow> has_edge g v u"
    and c: "set c \<subseteq> set (nodes g)" "is_clique g c" and ne: "nodes g \<noteq> []"
  shows "\<exists>c' \<in> set (find_cliques g). set c \<subseteq> set c'"
proof -
  from c(2) have "\<forall>u \<in> set c. \<forall>v \<in> set c. u \<noteq> v \<longrightarrow> has_edge g u v"
    by (simp add: is_clique_def)
  from clique_extension [OF sym c(1) this]
  obtain C' where C': "set c \<subseteq> C'" "C' \<subseteq> set (nodes g)"
    "\<forall>u \<in> C'. \<forall>v \<in> C'. u \<noteq> v \<longrightarrow> has_edge g u v"
    "\<forall>n \<in> set (nodes g). n \<notin> C' \<longrightarrow> \<not> (\<forall>u \<in> C'. has_edge g u n)"
    by blast
  from C'(2) obtain c' where c': "c' \<in> set (subseqs (nodes g))" "set c' = C'"
    using subset_subseqs [of C' "nodes g"] by auto
  have "C' \<noteq> {}"
  proof
    assume "C' = {}"
    moreover from ne obtain n where "n \<in> set (nodes g)" by (cases "nodes g") auto
    ultimately show False using C'(4) by auto
  qed
  with c' C' have "is_maximal_clique g c'"
    by (auto simp: is_maximal_clique_def is_clique_def)
  with c' C'(1) show ?thesis
    by (auto simp: find_cliques_iff)
qed

lemma maxes_iff: "x \<in> set (maxes key xs) \<longleftrightarrow> x \<in> set xs \<and> (\<forall>y \<in> set xs. key y \<le> key x)"
  by (simp add: maxes_def)

lemma update_fresh: "k \<notin> fst ` set al \<Longrightarrow> AList.update k v al = al @ [(k, v)]"
  by (induction al) auto

lemma dict_distinct_aux:
  "distinct (map fst (acc @ c)) \<Longrightarrow> foldl (\<lambda>d (k, v). AList.update k v d) acc c = acc @ c"
proof (induction c arbitrary: acc)
  case Nil
  then show ?case by simp
next
  case (Cons p c)
  obtain k v where p: "p = (k, v)" by (cases p)
  from Cons.prems p have "k \<notin> fst ` set acc" by auto
  then have "AList.update k v acc = acc @ [(k, v)]" by (rule update_fresh)
  moreover from Cons.prems p have "distinct (map fst ((acc @ [(k, v)]) @ c))" by simp
  ultimately show ?case
    using Cons.IH [of "acc @ [(k, v)]"] p by simp
qed

lemma dict_distinct: "distinct (map fst c) \<Longrightarrow> dict c = c"
  using dict_distinct_aux [of "[]" c] by (simp add: dict_def)

text \<open>A clique of a graph whose edges join pairs with different components is an injective mapping.\<close>

lemma clique_injective:
  fixes g :: "('a \<times> 'b, 'v, 'w) graph"
  assumes edge: "\<And>x y. has_edge g x y \<Longrightarrow> fst x \<noteq> fst y \<and> snd x \<noteq> snd y"
    and c: "is_clique g c" "distinct c"
  shows "distinct (map fst c) \<and> distinct (map snd c)"
proof -
  have "inj_on fst (set c)" "inj_on snd (set c)"
    using edge c(1) unfolding is_clique_def inj_on_def by blast+
  with c(2) show ?thesis
    by (simp add: distinct_map)
qed

lemma maxes_nonempty:
  assumes "xs \<noteq> []"
  shows "maxes key xs \<noteq> []"
proof -
  from assms have "Max (key ` set xs) \<in> key ` set xs"
    by (intro Max_in) auto
  then obtain x where x: "x \<in> set xs" "key x = Max (key ` set xs)"
    by auto
  then have "\<forall>y \<in> set xs. key y \<le> key x"
    by simp
  with x(1) have "x \<in> set (maxes key xs)"
    by (simp add: maxes_iff)
  then show ?thesis by auto
qed

lemma modular_has_edge_sym:
  "has_edge (categorical_modular_product graph1 graph2 attributes) x y \<Longrightarrow>
   has_edge (categorical_modular_product graph1 graph2 attributes) y x"
  unfolding modular_product_fold(2) by blast

lemma modular_has_edge_distinct:
  assumes "has_edge (categorical_modular_product graph1 graph2 attributes) x y"
  shows "fst x \<noteq> fst y \<and> snd x \<noteq> snd y"
proof -
  from assms obtain p where "xnor_edge graph1 graph2 p" "p = (x, y) \<or> p = (y, x)"
    unfolding modular_product_fold(2) by blast
  then show ?thesis
    by (auto simp: xnor_edge_def)
qed

lemma distinct_nodes_modular: "distinct (nodes (categorical_modular_product graph1 graph2 attributes))"
  using distinct_cartesian [of graph1 graph2 attributes]
  by (simp add: nodes_def modular_product_fold(1))

lemma nodes_modular:
  "nodes (categorical_modular_product graph1 graph2 attributes) =
   nodes (categorical_cartesian_product graph1 graph2 attributes)"
  by (simp add: nodes_def modular_product_fold(1))

text \<open>What the cliques of maximum length of a graph are, when its adjacency is symmetric.\<close>

lemma maxes_find_cliques:
  fixes g :: "('n, 'v, 'w) graph"
  assumes sym: "\<And>u v. has_edge g u v \<Longrightarrow> has_edge g v u" and dist: "distinct (nodes g)"
  shows "m \<in> set (maxes length (find_cliques g)) \<Longrightarrow>
      is_maximal_clique g m \<and> distinct m \<and> set m \<subseteq> set (nodes g) \<and>
      (\<forall>c. distinct c \<and> set c \<subseteq> set (nodes g) \<and> is_clique g c \<longrightarrow> length c \<le> length m)"
    and "distinct c \<Longrightarrow> set c \<subseteq> set (nodes g) \<Longrightarrow> c \<noteq> [] \<Longrightarrow> is_clique g c \<Longrightarrow>
      (\<forall>c'. distinct c' \<and> set c' \<subseteq> set (nodes g) \<and> is_clique g c' \<longrightarrow> length c' \<le> length c) \<Longrightarrow>
      \<exists>m \<in> set (maxes length (find_cliques g)). set m = set c"
    and "maxes length (find_cliques g) = [] \<longleftrightarrow> nodes g = []"
proof -
  have cover: "\<exists>c' \<in> set (find_cliques g). set c \<subseteq> set c'"
    if "set c \<subseteq> set (nodes g)" "is_clique g c" "nodes g \<noteq> []" for c
    using find_cliques_covers [OF sym that] .
  have found: "is_maximal_clique g c \<and> is_clique g c \<and> distinct c \<and> set c \<subseteq> set (nodes g)"
    if "c \<in> set (find_cliques g)" for c
    using that find_cliques_subset [OF that] find_cliques_distinct [OF dist that]
    by (simp add: find_cliques_iff is_maximal_clique_def)
  {
    assume m: "m \<in> set (maxes length (find_cliques g))"
    then have mf: "m \<in> set (find_cliques g)" and mx: "\<forall>y \<in> set (find_cliques g). length y \<le> length m"
      by (simp_all add: maxes_iff)
    from mf have ne: "nodes g \<noteq> []"
      using find_cliques_empty [of g] by auto
    have "length c \<le> length m" if c: "distinct c" "set c \<subseteq> set (nodes g)" "is_clique g c" for c
    proof -
      from cover [OF c(2,3) ne] obtain c' where c': "c' \<in> set (find_cliques g)" "set c \<subseteq> set c'"
        by blast
      from c' found have "distinct c'" by blast
      have "length c = card (set c)" using c(1) by (simp add: distinct_card)
      also have "\<dots> \<le> card (set c')" using c'(2) by (intro card_mono) auto
      also have "\<dots> = length c'" using \<open>distinct c'\<close> by (simp add: distinct_card)
      also have "\<dots> \<le> length m" using mx c'(1) by blast
      finally show ?thesis .
    qed
    with found [OF mf] show "is_maximal_clique g m \<and> distinct m \<and> set m \<subseteq> set (nodes g) \<and>
      (\<forall>c. distinct c \<and> set c \<subseteq> set (nodes g) \<and> is_clique g c \<longrightarrow> length c \<le> length m)"
      by blast
  }
  {
    assume c: "distinct c" "set c \<subseteq> set (nodes g)" "c \<noteq> []" "is_clique g c"
      and mx: "\<forall>c'. distinct c' \<and> set c' \<subseteq> set (nodes g) \<and> is_clique g c' \<longrightarrow> length c' \<le> length c"
    from c(2,3) have ne: "nodes g \<noteq> []" by auto
    from cover [OF c(2,4) ne] obtain c' where c': "c' \<in> set (find_cliques g)" "set c \<subseteq> set c'"
      by blast
    from found [OF c'(1)] mx have le: "length c' \<le> length c" by blast
    from found [OF c'(1)] have dc': "distinct c'" by blast
    have "card (set c') \<le> card (set c)"
      using le c(1) dc' by (simp add: distinct_card)
    with c'(2) have eq: "set c = set c'"
      by (intro card_seteq) auto
    then have "length c' = length c"
      using c(1) dc' by (metis distinct_card)
    moreover have "length y \<le> length c" if "y \<in> set (find_cliques g)" for y
      using found [OF that] mx by blast
    ultimately have "c' \<in> set (maxes length (find_cliques g))"
      using c'(1) by (simp add: maxes_iff)
    with eq show "\<exists>m \<in> set (maxes length (find_cliques g)). set m = set c"
      by auto
  }
  show "maxes length (find_cliques g) = [] \<longleftrightarrow> nodes g = []"
  proof
    assume "nodes g = []"
    then show "maxes length (find_cliques g) = []"
      by (simp add: find_cliques_empty maxes_def)
  next
    assume e: "maxes length (find_cliques g) = []"
    show "nodes g = []"
    proof (rule ccontr)
      assume ne: "nodes g \<noteq> []"
      have "is_clique g []" by (simp add: is_clique_def)
      with cover [of "[]"] ne have "find_cliques g \<noteq> []" by auto
      with e maxes_nonempty show False by blast
    qed
  qed
qed

lemma modular_clique_dict:
  assumes "m \<in> set (find_cliques (categorical_modular_product graph1 graph2 attributes))"
  shows "dict m = m \<and> distinct (map fst m) \<and> distinct (map snd m)"
proof -
  let ?M = "categorical_modular_product graph1 graph2 attributes"
  from assms have "is_clique ?M m" "distinct m"
    using find_cliques_distinct [OF distinct_nodes_modular assms]
    by (simp_all add: find_cliques_iff is_maximal_clique_def)
  then have "distinct (map fst m) \<and> distinct (map snd m)"
    by (intro clique_injective [of ?M]) (rule modular_has_edge_distinct)
  then show ?thesis
    by (simp add: dict_distinct)
qed

lemma categorical_mcs_eq:
  "categorical_maximum_common_subgraph graph1 graph2 attributes =
     maxes length (find_cliques (categorical_modular_product graph1 graph2 attributes))"
proof -
  let ?L = "maxes length (find_cliques (categorical_modular_product graph1 graph2 attributes))"
  have "dict m = m" if "m \<in> set ?L" for m
    using that modular_clique_dict [of m graph1 graph2 attributes] by (simp add: maxes_iff)
  then have "map dict ?L = ?L"
    by (simp add: map_idI)
  then show ?thesis
    by (simp add: categorical_maximum_common_subgraph_def Let_def)
qed

text \<open>
  Claim C3. Every match returned by \<^verbatim>\<open>categorical_maximum_common_subgraph\<close> is a maximal
  clique of the modular product graph, and no clique of that graph has more nodes; so all
  returned matches have the same size. Every clique of maximum size is returned (as a set
  of node pairs). The result is empty exactly when the product graph has no node, which
  is the case when no pair of nodes is attribute-compatible.
\<close>

theorem categorical_maximum_common_subgraph_maximum_cliques:
  fixes graph1 :: "('a, 'v, 'w) graph" and graph2 :: "('b, 'v, 'w) graph" and attributes :: "string list"
  defines "M \<equiv> categorical_modular_product graph1 graph2 attributes"
  defines "R \<equiv> categorical_maximum_common_subgraph graph1 graph2 attributes"
  shows "(\<forall>m \<in> set R. is_maximal_clique M m \<and> distinct m \<and> set m \<subseteq> set (nodes M) \<and>
           (\<forall>c. distinct c \<and> set c \<subseteq> set (nodes M) \<and> is_clique M c \<longrightarrow> length c \<le> length m)) \<and>
         (\<forall>m \<in> set R. \<forall>m' \<in> set R. length m = length m') \<and>
         (\<forall>c. distinct c \<and> set c \<subseteq> set (nodes M) \<and> c \<noteq> [] \<and> is_clique M c \<and>
              (\<forall>c'. distinct c' \<and> set c' \<subseteq> set (nodes M) \<and> is_clique M c' \<longrightarrow> length c' \<le> length c) \<longrightarrow>
              (\<exists>m \<in> set R. set m = set c)) \<and>
         (R = [] \<longleftrightarrow> nodes M = []) \<and>
         ((\<forall>(a, node1) \<in> set (node graph1). \<forall>(b, node2) \<in> set (node graph2).
              \<not> attrs_match attributes node1 node2) \<longrightarrow> R = [])"
proof -
  have R: "R = maxes length (find_cliques M)"
    unfolding R_def M_def by (rule categorical_mcs_eq)
  have sym: "\<And>u v. has_edge M u v \<Longrightarrow> has_edge M v u"
    unfolding M_def by (rule modular_has_edge_sym)
  have dist: "distinct (nodes M)"
    unfolding M_def by (rule distinct_nodes_modular)
  note mx = maxes_find_cliques [of M, OF sym dist]
  have a: "\<forall>m \<in> set R. is_maximal_clique M m \<and> distinct m \<and> set m \<subseteq> set (nodes M) \<and>
           (\<forall>c. distinct c \<and> set c \<subseteq> set (nodes M) \<and> is_clique M c \<longrightarrow> length c \<le> length m)"
    unfolding R using mx(1) by blast
  have b: "length m = length m'" if "m \<in> set R" "m' \<in> set R" for m m'
  proof -
    from a that have "is_clique M m" "is_clique M m'"
      by (simp_all add: is_maximal_clique_def)
    with a that have "length m \<le> length m'" "length m' \<le> length m"
      by blast+
    then show ?thesis by simp
  qed
  have c: "\<exists>m \<in> set R. set m = set c"
    if "distinct c \<and> set c \<subseteq> set (nodes M) \<and> c \<noteq> [] \<and> is_clique M c \<and>
        (\<forall>c'. distinct c' \<and> set c' \<subseteq> set (nodes M) \<and> is_clique M c' \<longrightarrow> length c' \<le> length c)" for c
    unfolding R using that by (intro mx(2)) simp_all
  have d: "R = [] \<longleftrightarrow> nodes M = []"
    unfolding R by (rule mx(3))
  have e: "R = []"
    if "\<forall>(a, node1) \<in> set (node graph1). \<forall>(b, node2) \<in> set (node graph2).
          \<not> attrs_match attributes node1 node2"
  proof -
    from that have "set (nodes (categorical_cartesian_product graph1 graph2 attributes)) = {}"
      unfolding nodes_cartesian by fastforce
    then have "nodes M = []"
      unfolding M_def nodes_modular by simp
    with d show ?thesis by simp
  qed
  from a b c d e show ?thesis by blast
qed

theorem categorical_maximum_common_subgraph_maximum_cliques_witness:
  "categorical_maximum_common_subgraph bond_order bond_length [''element''] = [[(1, 1), (2, 2)]] \<and>
   is_maximal_clique (categorical_modular_product bond_order bond_length [''element'']) [(1, 1), (2, 2)] \<and>
   nodes (categorical_modular_product bond_order bond_length [''element'']) \<noteq> [] \<and>
   categorical_maximum_common_subgraph named_atoms bond_length [''element''] = []"
proof -
  note T = categorical_maximum_common_subgraph_maximum_cliques
  have r: "categorical_maximum_common_subgraph bond_order bond_length [''element''] = [[(1, 1), (2, 2)]]"
    by code_simp
  then have "[(1, 1), (2, 2)] \<in> set (categorical_maximum_common_subgraph bond_order bond_length [''element''])"
    by simp
  with T [of bond_order bond_length "[''element'']"]
  have m: "is_maximal_clique (categorical_modular_product bond_order bond_length [''element'']) [(1, 1), (2, 2)]"
    by blast
  from T [of bond_order bond_length "[''element'']"] r
  have n: "nodes (categorical_modular_product bond_order bond_length [''element'']) \<noteq> []"
    by simp
  have "\<forall>(a, node1) \<in> set (node named_atoms). \<forall>(b, node2) \<in> set (node bond_length).
      \<not> attrs_match [''element''] node1 node2"
    by (simp add: named_atoms_def bond_length_def attrs_match_def)
  with T [of named_atoms bond_length "[''element'']"]
  have "categorical_maximum_common_subgraph named_atoms bond_length [''element''] = []"
    by blast
  with r m n show ?thesis by simp
qed

section \<open>Properties of the two-phase search\<close>

lemma add_xnor_edges_fold:
  fixes graph1 :: "('a, 'v, 'w) graph" and graph2 :: "('b, 'v, 'w) graph"
  assumes "edgeless N"
  shows "node (add_xnor_edges graph1 graph2 N) = node N"
    and "has_edge (add_xnor_edges graph1 graph2 N) x y \<longleftrightarrow>
      (\<exists>p \<in> set (combinations2 (nodes N)). xnor_edge graph1 graph2 p \<and> (p = (x, y) \<or> p = (y, x)))"
proof -
  have es: "\<forall>p \<in> set (combinations2 (nodes N)). fst p \<in> set (nodes N) \<and> snd p \<in> set (nodes N)"
    using combinations2_mem by fastforce
  have noedge: "get_edge_data N u v = None" for u v
    using assms by (rule edgeless_no_edge)
  note F = fold_add_edge [of "xnor_step graph1 graph2" "xnor_edge graph1 graph2"
      "\<lambda>p. Map.empty", OF xnor_step_eq es]
  from F show "node (add_xnor_edges graph1 graph2 N) = node N"
    unfolding add_xnor_edges_def by blast
  from F have "has_edge (add_xnor_edges graph1 graph2 N) x y \<longleftrightarrow> has_edge N x y \<or>
      (\<exists>p \<in> set (combinations2 (nodes N)). xnor_edge graph1 graph2 p \<and> (p = (x, y) \<or> p = (y, x)))"
    unfolding add_xnor_edges_def by blast
  then show "has_edge (add_xnor_edges graph1 graph2 N) x y \<longleftrightarrow>
      (\<exists>p \<in> set (combinations2 (nodes N)). xnor_edge graph1 graph2 p \<and> (p = (x, y) \<or> p = (y, x)))"
    by (simp add: has_edge_def noedge)
qed

lemma add_xnor_edges_sym:
  "edgeless N \<Longrightarrow> has_edge (add_xnor_edges graph1 graph2 N) x y \<Longrightarrow>
   has_edge (add_xnor_edges graph1 graph2 N) y x"
  unfolding add_xnor_edges_fold(2) by blast

lemma add_xnor_edges_distinct:
  assumes "edgeless N" "has_edge (add_xnor_edges graph1 graph2 N) x y"
  shows "fst x \<noteq> fst y \<and> snd x \<noteq> snd y"
proof -
  from assms(2) obtain p where "xnor_edge graph1 graph2 p" "p = (x, y) \<or> p = (y, x)"
    unfolding add_xnor_edges_fold(2) [OF assms(1)] by blast
  then show ?thesis
    by (auto simp: xnor_edge_def)
qed

lemma add_xnor_edges_iff:
  assumes "edgeless N" "wf_graph graph1" "wf_graph graph2"
  shows "has_edge (add_xnor_edges graph1 graph2 N) (a1, b1) (a2, b2) \<longleftrightarrow>
      (a1, b1) \<in> set (nodes N) \<and> (a2, b2) \<in> set (nodes N) \<and>
      a1 \<noteq> a2 \<and> b1 \<noteq> b2 \<and> (has_edge graph1 a1 a2 \<longleftrightarrow> has_edge graph2 b1 b2)"
    (is "?L \<longleftrightarrow> ?R")
proof
  assume ?L
  then obtain p where p: "p \<in> set (combinations2 (nodes N))" "xnor_edge graph1 graph2 p"
    "p = ((a1, b1), (a2, b2)) \<or> p = ((a2, b2), (a1, b1))"
    unfolding add_xnor_edges_fold(2) [OF assms(1)] by blast
  from p(1,3) have "(a1, b1) \<in> set (nodes N) \<and> (a2, b2) \<in> set (nodes N)"
    using combinations2_mem by fastforce
  moreover from p(2,3) have "xnor_edge graph1 graph2 ((a1, b1), (a2, b2))"
    using xnor_edge_sym [OF assms(2,3), of "(a2, b2)" "(a1, b1)"] by blast
  ultimately show ?R
    by (simp add: xnor_edge_def)
next
  assume R: ?R
  then have x: "xnor_edge graph1 graph2 ((a1, b1), (a2, b2))"
    by (simp add: xnor_edge_def)
  then have x': "xnor_edge graph1 graph2 ((a2, b2), (a1, b1))"
    using xnor_edge_sym [OF assms(2,3), of "(a2, b2)" "(a1, b1)"] by blast
  from R have "(a1, b1) \<noteq> (a2, b2)" by simp
  with R have "((a1, b1), (a2, b2)) \<in> set (combinations2 (nodes N)) \<or>
      ((a2, b2), (a1, b1)) \<in> set (combinations2 (nodes N))"
    by (intro combinations2_complete) simp_all
  with x x' show ?L
    unfolding add_xnor_edges_fold(2) [OF assms(1)] by blast
qed

lemma clique_nodes_fold_eq:
  "clique_nodes graph1 graph2 attributes clique =
     foldl (\<lambda>g p. if (degree graph1 (fst (fst p)) \<le> 1 \<or> degree graph2 (fst (snd p)) \<le> 1) \<and>
                      attrs_match attributes (snd (fst p)) (snd (snd p)) \<and>
                      leaf_compatible graph1 graph2 (dict clique) (fst (fst p)) (fst (snd p))
                   then add_node (fst (fst p), fst (snd p)) Map.empty g else g)
       (foldl (\<lambda>g n. if True then add_node n Map.empty g else g) empty_graph clique)
       (List.product (node graph1) (node graph2))"
proof -
  have f: "(\<lambda>product ((g1_node, node1), (g2_node, node2)).
              if (degree graph1 g1_node \<le> 1 \<or> degree graph2 g2_node \<le> 1) \<and>
                 attrs_match attributes node1 node2
              then (if leaf_compatible graph1 graph2 (dict clique) g1_node g2_node
                    then add_node (g1_node, g2_node) Map.empty product else product)
              else product) =
      (\<lambda>g p. if (degree graph1 (fst (fst p)) \<le> 1 \<or> degree graph2 (fst (snd p)) \<le> 1) \<and>
                      attrs_match attributes (snd (fst p)) (snd (snd p)) \<and>
                      leaf_compatible graph1 graph2 (dict clique) (fst (fst p)) (fst (snd p))
                   then add_node (fst (fst p), fst (snd p)) Map.empty g else g)"
    for graph1 :: "('a, 'v, 'w) graph" and graph2 :: "('b, 'v, 'w) graph"
    by (auto simp: fun_eq_iff)
  show ?thesis
    unfolding clique_nodes_def Let_def f by simp
qed

lemma edgeless_clique_nodes: "edgeless (clique_nodes graph1 graph2 attributes clique)"
  unfolding clique_nodes_fold_eq
  by (intro fold_nodes_edgeless edgeless_empty)

lemma distinct_clique_nodes: "distinct (nodes (clique_nodes graph1 graph2 attributes clique))"
  unfolding clique_nodes_fold_eq
  by (intro fold_nodes_distinct) (simp add: nodes_def empty_graph_def)

lemma nodes_clique_nodes:
  "set (nodes (clique_nodes graph1 graph2 attributes clique)) =
     set clique \<union>
     {(a, b). \<exists>node1 node2. (a, node1) \<in> set (node graph1) \<and> (b, node2) \<in> set (node graph2) \<and>
        (degree graph1 a \<le> 1 \<or> degree graph2 b \<le> 1) \<and> attrs_match attributes node1 node2 \<and>
        leaf_compatible graph1 graph2 (dict clique) a b}"
  (is "?L = set clique \<union> ?R")
proof -
  let ?k = "\<lambda>p :: ('a \<times> 'c attrs) \<times> ('b \<times> 'c attrs). (fst (fst p), fst (snd p))"
  let ?c = "\<lambda>p :: ('a \<times> 'c attrs) \<times> ('b \<times> 'c attrs).
     (degree graph1 (fst (fst p)) \<le> 1 \<or> degree graph2 (fst (snd p)) \<le> 1) \<and>
     attrs_match attributes (snd (fst p)) (snd (snd p)) \<and>
     leaf_compatible graph1 graph2 (dict clique) (fst (fst p)) (fst (snd p))"
  have L: "?L = set clique \<union> ?k ` {p \<in> set (List.product (node graph1) (node graph2)). ?c p}"
    unfolding clique_nodes_fold_eq fold_nodes_set by (simp add: nodes_def empty_graph_def)
  have "?k ` {p \<in> set (List.product (node graph1) (node graph2)). ?c p} = ?R"
  proof (intro set_eqI iffI)
    fix x assume "x \<in> ?k ` {p \<in> set (List.product (node graph1) (node graph2)). ?c p}"
    then obtain p where p: "p \<in> set (List.product (node graph1) (node graph2))" "?c p" "x = ?k p"
      by auto
    obtain a n1 b n2 where "p = ((a, n1), (b, n2))" by (metis surj_pair)
    with p show "x \<in> ?R" by auto
  next
    fix x assume "x \<in> ?R"
    then obtain a b n1 n2 where x: "x = (a, b)" "(a, n1) \<in> set (node graph1)"
      "(b, n2) \<in> set (node graph2)" "degree graph1 a \<le> 1 \<or> degree graph2 b \<le> 1"
      "attrs_match attributes n1 n2" "leaf_compatible graph1 graph2 (dict clique) a b"
      by auto
    then have "((a, n1), (b, n2)) \<in> {p \<in> set (List.product (node graph1) (node graph2)). ?c p}"
      by simp
    then have "?k ((a, n1), (b, n2)) \<in> ?k ` {p \<in> set (List.product (node graph1) (node graph2)). ?c p}"
      by (rule imageI)
    with x(1) show "x \<in> ?k ` {p \<in> set (List.product (node graph1) (node graph2)). ?c p}" by simp
  qed
  with L show ?thesis by simp
qed

lemma nodes_clique_product:
  "nodes (clique_product graph1 graph2 attributes clique) = nodes (clique_nodes graph1 graph2 attributes clique)"
  by (simp add: clique_product_def nodes_def add_xnor_edges_fold(1) [OF edgeless_clique_nodes])

lemma clique_product_clique_dict:
  assumes "m \<in> set (find_cliques (clique_product graph1 graph2 attributes clique))"
  shows "dict m = m \<and> distinct (map fst m) \<and> distinct (map snd m)"
proof -
  let ?M = "clique_product graph1 graph2 attributes clique"
  have "distinct (nodes ?M)"
    unfolding nodes_clique_product by (rule distinct_clique_nodes)
  with assms have "is_clique ?M m" "distinct m"
    using find_cliques_distinct [of ?M m]
    by (simp_all add: find_cliques_iff is_maximal_clique_def)
  moreover have "fst x \<noteq> fst y \<and> snd x \<noteq> snd y" if "has_edge ?M x y" for x y
    using that unfolding clique_product_def
    by (rule add_xnor_edges_distinct [OF edgeless_clique_nodes])
  ultimately have "distinct (map fst m) \<and> distinct (map snd m)"
    by (intro clique_injective [of ?M])
  then show ?thesis
    by (simp add: dict_distinct)
qed

lemma all_cliques_iff:
  "c \<in> set (all_cliques graph1 graph2 attributes) \<longleftrightarrow>
     (\<exists>seed \<in> insert [] (set (find_cliques (heavy_product graph1 graph2 attributes))).
        c \<in> set (find_cliques (clique_product graph1 graph2 attributes seed)))"
  by (auto simp: all_cliques_def heavy_cliques_def)

lemma all_cliques_dict:
  assumes "c \<in> set (all_cliques graph1 graph2 attributes)"
  shows "dict c = c \<and> distinct (map fst c) \<and> distinct (map snd c)"
  using assms clique_product_clique_dict unfolding all_cliques_iff by blast

lemma set_frozensets: "set (frozensets ms) \<subseteq> set ms"
  by (induction ms rule: frozensets.induct) auto

lemma frozensets_sets: "set ` set (frozensets ms) = set ` set ms"
proof (induction ms rule: frozensets.induct)
  case 1
  show ?case by simp
next
  case (2 m ms)
  have "set ` set (m # ms) = insert (set m) (set ` set (filter (\<lambda>m'. set m' \<noteq> set m) ms))"
    by auto
  with 2 show ?case by simp
qed

lemma distinct_frozensets: "distinct (map set (frozensets ms))"
proof (induction ms rule: frozensets.induct)
  case 1
  show ?case by simp
next
  case (2 m ms)
  have "set m \<notin> set ` set (frozensets (filter (\<lambda>m'. set m' \<noteq> set m) ms))"
    unfolding frozensets_sets by auto
  with 2 show ?case by simp
qed

lemma maximum_common_subgraph_eq:
  "maximum_common_subgraph graph1 graph2 attributes =
     frozensets (maxes length (all_cliques graph1 graph2 attributes))"
proof -
  let ?L = "frozensets (maxes length (all_cliques graph1 graph2 attributes))"
  have "dict m = m" if "m \<in> set ?L" for m
  proof -
    from that set_frozensets have "m \<in> set (maxes length (all_cliques graph1 graph2 attributes))"
      by blast
    then have "m \<in> set (all_cliques graph1 graph2 attributes)"
      by (simp add: maxes_iff)
    then show ?thesis
      using all_cliques_dict by blast
  qed
  then have "map dict ?L = ?L"
    by (simp add: map_idI)
  then show ?thesis
    by (simp add: maximum_common_subgraph_def Let_def)
qed

lemma leaf_compatible_iff:
  "leaf_compatible graph1 graph2 match a b \<longleftrightarrow>
     neighbors graph1 a = [] \<or>
     (\<exists>n \<in> set (neighbors graph1 a). map_of match n = None) \<or>
     (\<exists>n \<in> set (neighbors graph1 a). \<exists>m \<in> set (neighbors graph2 b). map_of match n = Some m)"
proof -
  have mem: "y \<in> set (map f xs) \<longleftrightarrow> (\<exists>n \<in> set xs. f n = y)" for y :: "'y" and f and xs :: "'x list"
    by (induction xs) auto
  show ?thesis
    unfolding leaf_compatible_def Let_def list_ex_iff mem by blast
qed

text \<open>
  Claim C4. The seeds of phase two are the empty clique and every maximal clique of the
  reduced product graph, whatever its size; \<^verbatim>\<open>maximum_common_subgraph\<close> collects the
  maximal cliques of the product graph of every seed. It returns collected cliques only;
  the sets of node pairs it returns are exactly those of the collected cliques of
  maximum length; all returned matches have the same length and no two of them have the
  same set of node pairs.
\<close>

theorem maximum_common_subgraph_keeps_maximum_cliques:
  fixes graph1 :: "('a, 'v, 'w) graph" and graph2 :: "('b, 'v, 'w) graph" and attributes :: "string list"
  defines "H \<equiv> heavy_product graph1 graph2 attributes"
  defines "A \<equiv> all_cliques graph1 graph2 attributes"
  defines "R \<equiv> maximum_common_subgraph graph1 graph2 attributes"
  shows "set (heavy_cliques graph1 graph2 attributes) =
           insert [] {c \<in> set (subseqs (nodes H)). is_maximal_clique H c} \<and>
         set A = (\<Union>seed \<in> set (heavy_cliques graph1 graph2 attributes).
                    set (find_cliques (clique_product graph1 graph2 attributes seed))) \<and>
         set R \<subseteq> set A \<and>
         set ` set R = set ` {c \<in> set A. \<forall>c' \<in> set A. length c' \<le> length c} \<and>
         (\<forall>m \<in> set R. \<forall>m' \<in> set R. length m = length m') \<and>
         distinct (map set R)"
proof -
  have R: "R = frozensets (maxes length A)"
    unfolding R_def A_def by (rule maximum_common_subgraph_eq)
  have mx: "set (maxes length A) = {c \<in> set A. \<forall>c' \<in> set A. length c' \<le> length c}"
    by (auto simp: maxes_iff)
  have 1: "set (heavy_cliques graph1 graph2 attributes) =
      insert [] {c \<in> set (subseqs (nodes H)). is_maximal_clique H c}"
    unfolding heavy_cliques_def H_def find_cliques_def by auto
  have 2: "set A = (\<Union>seed \<in> set (heavy_cliques graph1 graph2 attributes).
      set (find_cliques (clique_product graph1 graph2 attributes seed)))"
    unfolding A_def all_cliques_def by simp
  have 3: "set R \<subseteq> set (maxes length A)"
    unfolding R by (rule set_frozensets)
  then have sub: "set R \<subseteq> set A"
    unfolding mx by blast
  have 4: "set ` set R = set ` {c \<in> set A. \<forall>c' \<in> set A. length c' \<le> length c}"
    unfolding R frozensets_sets mx ..
  have 5: "length m = length m'" if "m \<in> set R" "m' \<in> set R" for m m'
  proof -
    from that 3 have "m \<in> set (maxes length A)" "m' \<in> set (maxes length A)" by blast+
    then have "length m \<le> length m'" "length m' \<le> length m"
      unfolding mx by blast+
    then show ?thesis by simp
  qed
  have 6: "distinct (map set R)"
    unfolding R by (rule distinct_frozensets)
  have 7: "\<forall>m \<in> set R. \<forall>m' \<in> set R. length m = length m'"
    by (intro ballI) (rule 5)
  show ?thesis
    apply (intro conjI)
         apply (fact 1)
        apply (fact 2)
       apply (fact sub)
      apply (fact 4)
     apply (fact 7)
    apply (fact 6)
    done
qed

text \<open>
  What the code of phase two does (the part of claim C5 that holds). For undirected
  graphs, the nodes of the product graph of a seed clique are the nodes of the seed and
  exactly the pairs of nodes, at least one of them of degree at most one, that are
  attribute-compatible and whose node of \<^verbatim>\<open>graph1\<close> has no neighbour, or has a neighbour
  that the seed does not map, or has a neighbour that the seed maps to a neighbour of the
  node of \<^verbatim>\<open>graph2\<close>. Two nodes of that graph are joined exactly when both components
  differ and the two pairs of components are both adjacent or both not adjacent.
\<close>

theorem clique_product_nodes_and_edges:
  fixes graph1 :: "('a, 'v, 'w) graph" and graph2 :: "('b, 'v, 'w) graph" and attributes :: "string list"
    and clique :: "('a \<times> 'b) list"
  assumes "wf_graph graph1" and "wf_graph graph2"
  defines "P \<equiv> clique_product graph1 graph2 attributes clique"
  shows "set (nodes P) = set clique \<union>
           {(a, b). \<exists>node1 node2. map_of (node graph1) a = Some node1 \<and> map_of (node graph2) b = Some node2 \<and>
              (degree graph1 a \<le> 1 \<or> degree graph2 b \<le> 1) \<and>
              (\<forall>attr \<in> set attributes. \<exists>v. node1 attr = Some v \<and> node2 attr = Some v) \<and>
              (neighbors graph1 a = [] \<or>
               (\<exists>n \<in> set (neighbors graph1 a). map_of (dict clique) n = None) \<or>
               (\<exists>n \<in> set (neighbors graph1 a). \<exists>m \<in> set (neighbors graph2 b).
                   map_of (dict clique) n = Some m))} \<and>
         (\<forall>a1 b1 a2 b2. has_edge P (a1, b1) (a2, b2) \<longleftrightarrow>
            (a1, b1) \<in> set (nodes P) \<and> (a2, b2) \<in> set (nodes P) \<and>
            a1 \<noteq> a2 \<and> b1 \<noteq> b2 \<and> (has_edge graph1 a1 a2 \<longleftrightarrow> has_edge graph2 b1 b2))"
proof (intro conjI allI)
  show "set (nodes P) = set clique \<union>
           {(a, b). \<exists>node1 node2. map_of (node graph1) a = Some node1 \<and> map_of (node graph2) b = Some node2 \<and>
              (degree graph1 a \<le> 1 \<or> degree graph2 b \<le> 1) \<and>
              (\<forall>attr \<in> set attributes. \<exists>v. node1 attr = Some v \<and> node2 attr = Some v) \<and>
              (neighbors graph1 a = [] \<or>
               (\<exists>n \<in> set (neighbors graph1 a). map_of (dict clique) n = None) \<or>
               (\<exists>n \<in> set (neighbors graph1 a). \<exists>m \<in> set (neighbors graph2 b).
                   map_of (dict clique) n = Some m))}"
    unfolding P_def nodes_clique_product nodes_clique_nodes attrs_match_iff leaf_compatible_iff
    by (simp add: wf_node_iff [OF assms(1)] wf_node_iff [OF assms(2)])
next
  fix a1 b1 a2 b2
  show "has_edge P (a1, b1) (a2, b2) \<longleftrightarrow>
      (a1, b1) \<in> set (nodes P) \<and> (a2, b2) \<in> set (nodes P) \<and>
      a1 \<noteq> a2 \<and> b1 \<noteq> b2 \<and> (has_edge graph1 a1 a2 \<longleftrightarrow> has_edge graph2 b1 b2)"
    unfolding P_def nodes_clique_product
    unfolding clique_product_def
    by (rule add_xnor_edges_iff [OF edgeless_clique_nodes assms(1,2)])
qed

theorem maximum_common_subgraph_keeps_maximum_cliques_witness:
  "heavy_cliques methylene methylene [''element''] = [[], [(1, 1)]] \<and>
   all_cliques methylene methylene [''element''] =
     [[(2, 2), (3, 3)], [(2, 3), (3, 2)], [(1, 1), (2, 2), (3, 3)], [(1, 1), (2, 3), (3, 2)]] \<and>
   maximum_common_subgraph methylene methylene [''element''] =
     [[(1, 1), (2, 2), (3, 3)], [(1, 1), (2, 3), (3, 2)]] \<and>
   set (maximum_common_subgraph methylene methylene [''element''])
     \<subseteq> set (all_cliques methylene methylene [''element'']) \<and>
   distinct (map set (maximum_common_subgraph methylene methylene [''element'']))"
proof -
  note T = maximum_common_subgraph_keeps_maximum_cliques [of methylene methylene "[''element'']"]
  have h: "heavy_cliques methylene methylene [''element''] = [[], [(1, 1)]]"
    by code_simp
  have a: "all_cliques methylene methylene [''element''] =
     [[(2, 2), (3, 3)], [(2, 3), (3, 2)], [(1, 1), (2, 2), (3, 3)], [(1, 1), (2, 3), (3, 2)]]"
    by code_simp
  have r: "maximum_common_subgraph methylene methylene [''element''] =
     [[(1, 1), (2, 2), (3, 3)], [(1, 1), (2, 3), (3, 2)]]"
    by code_simp
  have s: "set (maximum_common_subgraph methylene methylene [''element''])
     \<subseteq> set (all_cliques methylene methylene [''element''])"
    by (rule T [THEN conjunct2, THEN conjunct2, THEN conjunct1])
  have d: "distinct (map set (maximum_common_subgraph methylene methylene [''element'']))"
    by (rule T [THEN conjunct2, THEN conjunct2, THEN conjunct2, THEN conjunct2, THEN conjunct2])
  from h a r s d show ?thesis
    by (intro conjI)
qed

theorem clique_product_nodes_and_edges_witness:
  "wf_graph dimer \<and>
   nodes (clique_product dimer dimer [''element''] []) = [(1, 1), (1, 2), (2, 1), (2, 2)] \<and>
   has_edge (clique_product dimer dimer [''element''] []) (1, 1) (2, 2) \<and>
   \<not> has_edge (clique_product dimer dimer [''element''] []) (1, 1) (1, 2)"
proof -
  have w: "wf_graph dimer"
    by (simp add: wf_graph_def dimer_def get_edge_data_def nbrs_def)
  note T = clique_product_nodes_and_edges [OF w w, of "[''element'']" "[]"]
  note E = T [THEN conjunct2, rule_format]
  have n: "nodes (clique_product dimer dimer [''element''] []) = [(1, 1), (1, 2), (2, 1), (2, 2)]"
    by code_simp
  have e: "has_edge dimer 1 2" "\<not> has_edge dimer 1 1"
    by code_simp+
  have "has_edge (clique_product dimer dimer [''element''] []) (1, 1) (2, 2)"
    unfolding E using n e by simp
  moreover have "\<not> has_edge (clique_product dimer dimer [''element''] []) (1, 1) (1, 2)"
    unfolding E by simp
  ultimately show ?thesis
    using w n by simp
qed

text \<open>
  Claim C5 as it is stated fails in both directions, under either reading of the agreeing
  neighbour. With the seed \<open>[(1, 1)]\<close> of the chain against the lone carbon and the bond,
  the pair \<open>(2, 2)\<close> is a node of the product graph: node 2 of the chain has the neighbour
  3 that the seed does not map. The claim does not admit it: the one mapped neighbour,
  1, is mapped to a node that is no neighbour of node 2 of the other graph, and both
  nodes have a neighbour. With the seed \<open>[(2, 2)]\<close> of the bent molecule against the lone
  hydrogen, the pair \<open>(1, 1)\<close> is no node of the product graph, although the claim admits
  it: the lone hydrogen has no neighbour.
\<close>

theorem clique_product_claimed_pairs_counterexample:
  "[(1, 1)] \<in> set (heavy_cliques chain4 lone_and_bond [''element'']) \<and>
   (2, 2) \<in> set (nodes (clique_product chain4 lone_and_bond [''element''] [(1, 1)])) \<and>
   \<not> claimed_leaf_pair_some chain4 lone_and_bond [''element''] (dict [(1, 1)]) 2 2 \<and>
   \<not> claimed_leaf_pair_every chain4 lone_and_bond [''element''] (dict [(1, 1)]) 2 2 \<and>
   [(2, 2)] \<in> set (heavy_cliques bent lone_hydrogen [''element'']) \<and>
   (1, 1) \<notin> set (nodes (clique_product bent lone_hydrogen [''element''] [(2, 2)])) \<and>
   claimed_leaf_pair_some bent lone_hydrogen [''element''] (dict [(2, 2)]) 1 1 \<and>
   claimed_leaf_pair_every bent lone_hydrogen [''element''] (dict [(2, 2)]) 1 1"
proof -
  have h1: "heavy_cliques chain4 lone_and_bond [''element''] = [[], [(1, 1)], [(2, 1)]]"
    by code_simp
  have n1: "nodes (clique_product chain4 lone_and_bond [''element''] [(1, 1)]) =
      [(1, 1), (1, 2), (1, 3), (2, 1), (2, 2), (2, 3), (3, 1), (3, 2), (3, 3)]"
    by code_simp
  have d1: "dict [(1, 1)] = [(1::nat, 1::nat)]"
    by (simp add: dict_def)
  have c1: "\<not> claimed_leaf_pair_some chain4 lone_and_bond [''element''] (dict [(1, 1)]) 2 2"
    unfolding d1 by (simp add: claimed_leaf_pair_some_def neighbors_def nbrs_def chain4_def lone_and_bond_def)
  have c2: "\<not> claimed_leaf_pair_every chain4 lone_and_bond [''element''] (dict [(1, 1)]) 2 2"
    unfolding d1 by (simp add: claimed_leaf_pair_every_def neighbors_def nbrs_def chain4_def lone_and_bond_def)
  have h2: "heavy_cliques bent lone_hydrogen [''element''] = [[], [(2, 2)]]"
    by code_simp
  have n2: "nodes (clique_product bent lone_hydrogen [''element''] [(2, 2)]) =
      [(2, 2), (1, 3), (1, 4), (3, 3), (3, 4)]"
    by code_simp
  have d2: "dict [(2, 2)] = [(2::nat, 2::nat)]"
    by (simp add: dict_def)
  have deg: "degree bent 1 = 1"
    by code_simp
  have c3: "claimed_leaf_pair_some bent lone_hydrogen [''element''] (dict [(2, 2)]) 1 1"
    unfolding d2 claimed_leaf_pair_some_def deg
    by (simp add: neighbors_def nbrs_def bent_def lone_hydrogen_def attrs_match_def)
  have c4: "claimed_leaf_pair_every bent lone_hydrogen [''element''] (dict [(2, 2)]) 1 1"
    unfolding d2 claimed_leaf_pair_every_def deg
    by (simp add: neighbors_def nbrs_def bent_def lone_hydrogen_def attrs_match_def)
  show ?thesis
    unfolding h1 n1 h2 n2 using c1 c2 c3 c4 by simp
qed

section \<open>Properties of the subgraph isomorphism search\<close>

lemma chain_mem: "x \<in> set (fst (chain gs)) \<Longrightarrow> \<exists>g \<in> set gs. x \<in> set (fst g)"
  by (induction gs rule: chain.induct) auto

text \<open>
  A property of the matcher state that every feasible candidate pair preserves holds of
  the state in which a mapping is yielded.
\<close>

lemma GM_match_yields_aux:
  assumes "\<forall>st p. Q st \<longrightarrow> fst p \<in> set (nodes G1) \<longrightarrow> map_of (core_1 st) (fst p) = None \<longrightarrow>
      snd p \<in> set (nodes G2) \<longrightarrow> map_of (core_2 st) (snd p) = None \<longrightarrow>
      semantic_feasibility G1 G2 (fst p) (snd p) = Inr True \<longrightarrow>
      Q (GMState G1 G2 st (fst p) (snd p))"
    and "Q st" and "m \<in> set (fst (GM_match G1 G2 st))"
  shows "\<exists>st'. Q st' \<and> m = core_1 st' \<and> length m = length (nodes G2)"
  using assms
proof (induction G1 G2 st rule: GM_match.induct)
  case (1 G1 G2 st)
  note pres = "1.prems"(1) and Q = "1.prems"(2) and m = "1.prems"(3)
  show ?case
  proof (cases "length (core_1 st) = length (nodes G2)")
    case True
    with m have "m = core_1 st"
      by (simp add: GM_match.simps [of G1 G2 st])
    with True Q show ?thesis by auto
  next
    case False
    show ?thesis
    proof (cases "candidate_pairs_iter G1 G2 st")
      case (Inl e)
      with False m show ?thesis
        by (simp add: GM_match.simps [of G1 G2 st])
    next
      case (Inr pairs)
      let ?f = "\<lambda>p. if syntactic_feasibility G1 G2 st (fst p) (snd p)
                    then (case semantic_feasibility G1 G2 (fst p) (snd p) of
                            Inl e \<Rightarrow> ([], Some e)
                          | Inr ok \<Rightarrow> if ok then GM_match G1 G2 (GMState G1 G2 st (fst p) (snd p))
                                     else ([], None))
                    else ([], None)"
      from False Inr m have "m \<in> set (fst (chain (map ?f pairs)))"
        by (simp add: GM_match.simps [of G1 G2 st])
      then obtain p where p: "p \<in> set pairs" "m \<in> set (fst (?f p))"
        using chain_mem [of m "map ?f pairs"] by auto
      from p(2) have syn: "syntactic_feasibility G1 G2 st (fst p) (snd p)"
        by (auto split: if_splits)
      with p(2) have sem: "semantic_feasibility G1 G2 (fst p) (snd p) = Inr True"
        and rec: "m \<in> set (fst (GM_match G1 G2 (GMState G1 G2 st (fst p) (snd p))))"
        by (auto split: sum.splits if_splits)
      note c = candidate_pairs_iter_cases [OF Inr p(1)]
      have Qn: "Q (GMState G1 G2 st (fst p) (snd p))"
        using pres [rule_format, of st p] Q c sem by simp
      show ?thesis
        by (rule "1.IH" [OF False Inr p(1) syn sem TrueI pres Qn rec])
    qed
  qed
qed

lemma GM_match_yields:
  assumes "\<And>st p. Q st \<Longrightarrow> fst p \<in> set (nodes G1) \<Longrightarrow> map_of (core_1 st) (fst p) = None \<Longrightarrow>
      snd p \<in> set (nodes G2) \<Longrightarrow> map_of (core_2 st) (snd p) = None \<Longrightarrow>
      semantic_feasibility G1 G2 (fst p) (snd p) = Inr True \<Longrightarrow>
      Q (GMState G1 G2 st (fst p) (snd p))"
    and "Q st" and "m \<in> set (fst (GM_match G1 G2 st))"
  shows "\<exists>st'. Q st' \<and> m = core_1 st' \<and> length m = length (nodes G2)"
  by (rule GM_match_yields_aux [where Q = Q and ?G1.0 = G1 and ?G2.0 = G2 and st = st, OF _ assms(2,3)])
    (use assms(1) in blast)

lemma semantic_feasibility_True:
  "semantic_feasibility G1 G2 n m = Inr True \<longleftrightarrow>
     (\<exists>e. node_attr G1 n ''element'' = Inr e \<and> node_attr G2 m ''element'' = Inr e)"
  by (auto simp: semantic_feasibility_def split: sum.splits)

lemma node_attr_Inr_node: "node_attr g n key = Inr x \<Longrightarrow> n \<in> set (nodes g)"
  by (auto simp: node_attr_def mem_nodes_iff split: option.splits)

lemma consistent_mapping_add:
  assumes c: "consistent_mapping G1 G2 st"
    and n: "map_of (core_1 st) n = None" and m: "map_of (core_2 st) m = None"
    and sem: "semantic_feasibility G1 G2 n m = Inr True"
    and c1: "core_1 st' = AList.update n m (core_1 st)"
    and c2: "core_2 st' = AList.update m n (core_2 st)"
  shows "consistent_mapping G1 G2 st'"
proof -
  from n have nk: "n \<notin> fst ` set (core_1 st)"
    by (simp add: map_of_eq_None_iff)
  from m have "m \<notin> fst ` set (core_2 st)"
    by (simp add: map_of_eq_None_iff)
  with c have mv: "m \<notin> snd ` set (core_1 st)"
    unfolding consistent_mapping_def by blast
  have c1': "core_1 st' = core_1 st @ [(n, m)]"
    unfolding c1 using nk by (rule update_fresh)
  from sem obtain e where e: "node_attr G1 n ''element'' = Inr e" "node_attr G2 m ''element'' = Inr e"
    unfolding semantic_feasibility_True by blast
  then have nodes: "n \<in> set (nodes G1)" "m \<in> set (nodes G2)"
    by (auto dest: node_attr_Inr_node)
  have "distinct (map fst (core_1 st'))" "distinct (map snd (core_1 st'))"
    using c nk mv unfolding c1' consistent_mapping_def by auto
  moreover have "snd ` set (core_1 st') \<subseteq> fst ` set (core_2 st')"
    using c unfolding c1' c2 consistent_mapping_def by (auto simp: AList.dom_update)
  moreover have "fst ` set (core_1 st') \<subseteq> set (nodes G1)" "snd ` set (core_1 st') \<subseteq> set (nodes G2)"
    using c nodes unfolding c1' consistent_mapping_def by auto
  moreover have "\<forall>(r, s) \<in> set (core_1 st').
        \<exists>e. node_attr G1 r ''element'' = Inr e \<and> node_attr G2 s ''element'' = Inr e"
    using c e unfolding c1' consistent_mapping_def by auto
  ultimately show ?thesis
    unfolding consistent_mapping_def by blast
qed

lemma GM_match_consistent:
  assumes "consistent_mapping G1 G2 st" and "m \<in> set (fst (GM_match G1 G2 st))"
  shows "\<exists>st'. consistent_mapping G1 G2 st' \<and> m = core_1 st' \<and> length m = length (nodes G2)"
proof (rule GM_match_yields [where Q = "consistent_mapping G1 G2", OF _ assms])
  fix st p
  assume "consistent_mapping G1 G2 st" "map_of (core_1 st) (fst p) = None"
    "map_of (core_2 st) (snd p) = None" "semantic_feasibility G1 G2 (fst p) (snd p) = Inr True"
  then show "consistent_mapping G1 G2 (GMState G1 G2 st (fst p) (snd p))"
    by (rule consistent_mapping_add) (rule core_1_GMState core_2_GMState)+
qed

subsection \<open>The extension by the leaves\<close>

lemma extend_leaf_eq:
  assumes "neighbors residue h = p # rest" and "map_of r p = Some q"
    and "H_names_of reference q = Inr H" and "node_attr residue h ''atomname'' = Inr name"
  shows "extend_leaf reference residue (m, r) h =
     (case map_of H name of
        None \<Rightarrow> Inr (m, r)
      | Some [] \<Rightarrow> Inr (m, r)
      | Some (ref_H_idx # others) \<Rightarrow>
          if others \<noteq> [] then Inr (m, r)
          else if map_of m ref_H_idx \<noteq> None then Inr (m, r)
          else (case semantic_feasibility reference residue ref_H_idx h of
                  Inl e \<Rightarrow> Inl e
                | Inr same \<Rightarrow>
                    if same then Inr (AList.update ref_H_idx h m, AList.update h ref_H_idx r)
                    else Inr (m, r)))"
  using assms by (simp add: extend_leaf_def)

lemma extend_leaf_cases:
  assumes "extend_leaf reference residue (m, r) h = Inr (m', r')"
  obtains (skip) "m' = m" "r' = r"
  | (add) p rest q H name ref_H where "neighbors residue h = p # rest" "map_of r p = Some q"
      "H_names_of reference q = Inr H" "node_attr residue h ''atomname'' = Inr name"
      "map_of H name = Some [ref_H]" "map_of m ref_H = None"
      "semantic_feasibility reference residue ref_H h = Inr True"
      "m' = AList.update ref_H h m" "r' = AList.update h ref_H r"
proof (cases "neighbors residue h")
  case Nil
  with assms show ?thesis by (simp add: extend_leaf_def)
next
  case (Cons p rest)
  show ?thesis
  proof (cases "map_of r p")
    case None
    with Cons assms have "m' = m" "r' = r" by (simp_all add: extend_leaf_def)
    then show ?thesis by (rule skip)
  next
    case (Some q)
    show ?thesis
    proof (cases "H_names_of reference q")
      case (Inl e)
      with Cons Some assms show ?thesis by (simp add: extend_leaf_def)
    next
      case H: (Inr H)
      show ?thesis
      proof (cases "node_attr residue h ''atomname''")
        case (Inl e)
        with Cons Some H assms show ?thesis by (simp add: extend_leaf_def)
      next
        case name: (Inr name)
        note eq = extend_leaf_eq [OF Cons Some H name, where m = m]
        show ?thesis
        proof (cases "map_of H name")
          case None
          with eq assms have "m' = m" "r' = r" by simp_all
          then show ?thesis by (rule skip)
        next
          case SomeL: (Some idxs)
          show ?thesis
          proof (cases idxs)
            case Nil
            with SomeL eq assms have "m' = m" "r' = r" by simp_all
            then show ?thesis by (rule skip)
          next
            case L: (Cons ref_H others)
            show ?thesis
            proof (cases "others \<noteq> [] \<or> map_of m ref_H \<noteq> None")
              case True
              then have "extend_leaf reference residue (m, r) h = Inr (m, r)"
                unfolding eq SomeL L by (cases "others = []") simp_all
              with assms have "m' = m" "r' = r" by simp_all
              then show ?thesis by (rule skip)
            next
              case False
              then have o: "others = []" and fresh: "map_of m ref_H = None" by simp_all
              show ?thesis
              proof (cases "semantic_feasibility reference residue ref_H h")
                case (Inl e)
                with eq SomeL L o fresh assms show ?thesis by simp
              next
                case (Inr same)
                show ?thesis
                proof (cases same)
                  case True
                  with Inr eq SomeL L o fresh assms
                  have "m' = AList.update ref_H h m" "r' = AList.update h ref_H r" by simp_all
                  with Cons Some H name SomeL L o fresh Inr True show ?thesis
                    by (intro add [of p rest q H name ref_H]) simp_all
                next
                  case False
                  with Inr eq SomeL L o fresh assms have "m' = m" "r' = r" by simp_all
                  then show ?thesis by (rule skip)
                qed
              qed
            qed
          qed
        qed
      qed
    qed
  qed
qed

lemma extend_leaf_empty:
  assumes "extend_leaf reference residue (m, r) h = Inr (m', r')"
  shows "(m = [] \<and> r = [] \<longrightarrow> m' = [] \<and> r' = []) \<and> (m \<noteq> [] \<longrightarrow> m' \<noteq> [])"
  using assms
proof (cases rule: extend_leaf_cases)
  case skip
  then show ?thesis by simp
next
  case (add p rest q H name ref_H)
  then show ?thesis by (cases m) auto
qed

lemma extend_leaves_empty:
  assumes "extend_leaves reference residue (m, r) H_idxs = Inr (m', r')"
  shows "(m = [] \<and> r = [] \<longrightarrow> m' = [] \<and> r' = []) \<and> (m \<noteq> [] \<longrightarrow> m' \<noteq> [])"
  using assms
proof (induction H_idxs arbitrary: m r)
  case Nil
  then show ?case by simp
next
  case (Cons h H_idxs)
  from Cons.prems obtain m1 r1 where 1: "extend_leaf reference residue (m, r) h = Inr (m1, r1)"
    and 2: "extend_leaves reference residue (m1, r1) H_idxs = Inr (m', r')"
    by (auto split: sum.splits)
  from extend_leaf_empty [OF 1] Cons.IH [OF 2] show ?case by blast
qed


lemma node_foldl_adj: "node (foldl (\<lambda>h u. h\<lparr>adj := F h u\<rparr>) g us) = node g"
  by (induction us arbitrary: g) simp_all

lemma node_remove_node: "node (remove_node n g) = AList.delete n (node g)"
proof (cases "map_of (node g) n")
  case None
  then have "n \<notin> fst ` set (node g)"
    by (simp add: map_of_eq_None_iff)
  then have "AList.delete n (node g) = node g"
    by (rule AList.delete_id)
  with None show ?thesis by (simp add: remove_node_def)
next
  case (Some a)
  then show ?thesis
    by (simp add: remove_node_def Let_def node_foldl_adj)
qed

lemma node_remove_nodes_from:
  "node (remove_nodes_from ns g) = filter (\<lambda>x. fst x \<notin> set ns) (node g)"
proof (induction ns arbitrary: g)
  case Nil
  show ?case by (simp add: remove_nodes_from_def)
next
  case (Cons n ns)
  have "remove_nodes_from (n # ns) g = remove_nodes_from ns (remove_node n g)"
    by (simp add: remove_nodes_from_def)
  then have "node (remove_nodes_from (n # ns) g)
      = filter (\<lambda>x. fst x \<notin> set ns) (filter (\<lambda>x. n \<noteq> fst x) (node g))"
    by (simp add: Cons.IH node_remove_node AList.delete_eq case_prod_beta)
  also have "\<dots> = filter (\<lambda>x. fst x \<notin> set (n # ns)) (node g)"
    unfolding filter_filter by (rule filter_cong) auto
  finally show ?case .
qed

lemma nodes_remove_nodes_from:
  "nodes (remove_nodes_from ns g) = filter (\<lambda>n. n \<notin> set ns) (nodes g)"
  by (simp add: nodes_def node_remove_nodes_from filter_map comp_def)

lemma heavy_nodes:
  "nodes (remove_nodes_from (filter (\<lambda>idx. degree residue idx = 1) (nodes residue)) residue) =
     filter (\<lambda>idx. degree residue idx \<noteq> 1) (nodes residue)"
  unfolding nodes_remove_nodes_from by (rule filter_cong) auto

lemma to_list_Inr: "to_list gen = Inr xs \<longleftrightarrow> gen = (xs, None)"
  by (cases gen) (auto simp: to_list_def split: option.splits)

lemma GM_match_length:
  assumes "m \<in> set (fst (GM_match G1 G2 st))"
  shows "length m = length (nodes G2)"
  using GM_match_yields [where Q = "\<lambda>_. True", OF _ _ assms] by auto

text \<open>
  Claim C6, amended. \<^verbatim>\<open>isomorphism\<close> runs the body of its loop on every heavy embedding and
  sorts what the bodies added. Let the body of the loop, for one heavy embedding, extend
  it by the leaves to the seed. The seed is empty exactly when the residue has no
  heavy atom. For a seed that is not empty the first completion that the seeded search
  discovers is added, and nothing is added when the search discovers none; for the
  empty seed every completion that the search discovers is added, in the order of
  discovery. An exception of the search that comes before the first completion, or for the
  empty seed at any time, is the exception of \<^verbatim>\<open>isomorphism\<close>.
\<close>

theorem complete_match_first_completion:
  assumes "H_idxs = filter (\<lambda>idx. degree residue idx = 1) (nodes residue)"
    and "to_list (GM_match reference (remove_nodes_from H_idxs residue) initialize) = Inr first_matches"
    and "match \<in> set first_matches"
    and "extend_leaves reference residue (match, dict (map (\<lambda>(k, v). (v, k)) match)) H_idxs
           = Inr (seed, reverse_seed)"
    and "outcome = GM_match reference residue (GM_large seed reverse_seed)"
  shows "isomorphism reference residue =
           (case sequence (map (complete_match reference residue H_idxs) first_matches) of
              Inl e \<Rightarrow> Inl e
            | Inr found \<Rightarrow> sorted_by_rate reference residue (concat found)) \<and>
         (seed = [] \<longleftrightarrow> filter (\<lambda>idx. degree residue idx \<noteq> 1) (nodes residue) = []) \<and>
         (seed \<noteq> [] \<longrightarrow> complete_match reference residue H_idxs match =
           (case fst outcome of
              completion # _ \<Rightarrow> Inr [completion]
            | [] \<Rightarrow> (case snd outcome of None \<Rightarrow> Inr [] | Some e \<Rightarrow> Inl e))) \<and>
         (seed = [] \<longrightarrow> complete_match reference residue H_idxs match =
           (case snd outcome of None \<Rightarrow> Inr (fst outcome) | Some e \<Rightarrow> Inl e))"
proof -
  have a: "isomorphism reference residue =
           (case sequence (map (complete_match reference residue H_idxs) first_matches) of
              Inl e \<Rightarrow> Inl e
            | Inr found \<Rightarrow> sorted_by_rate reference residue (concat found))"
    using assms(2) unfolding assms(1) by (simp add: isomorphism_def Let_def)
  have cm: "complete_match reference residue H_idxs match = completions seed outcome"
    using assms(4,5) by (simp add: complete_match_def Let_def)
  have c: "complete_match reference residue H_idxs match =
           (case fst outcome of
              completion # _ \<Rightarrow> Inr [completion]
            | [] \<Rightarrow> (case snd outcome of None \<Rightarrow> Inr [] | Some e \<Rightarrow> Inl e))" if "seed \<noteq> []"
    using that unfolding cm by (simp add: completions_def islice1_def)
  have d: "complete_match reference residue H_idxs match =
           (case snd outcome of None \<Rightarrow> Inr (fst outcome) | Some e \<Rightarrow> Inl e)" if "seed = []"
    using that unfolding cm by (simp add: completions_def to_list_def)
  from assms(2,3) have "match \<in> set (fst (GM_match reference (remove_nodes_from H_idxs residue) initialize))"
    by (simp add: to_list_Inr)
  then have "length match = length (nodes (remove_nodes_from H_idxs residue))"
    by (rule GM_match_length)
  then have len: "length match = length (filter (\<lambda>idx. degree residue idx \<noteq> 1) (nodes residue))"
    unfolding assms(1) heavy_nodes .
  note e = extend_leaves_empty [OF assms(4)]
  have b: "seed = [] \<longleftrightarrow> filter (\<lambda>idx. degree residue idx \<noteq> 1) (nodes residue) = []"
  proof
    assume "seed = []"
    with e have "match = []" by blast
    with len show "filter (\<lambda>idx. degree residue idx \<noteq> 1) (nodes residue) = []" by simp
  next
    assume "filter (\<lambda>idx. degree residue idx \<noteq> 1) (nodes residue) = []"
    with len have "match = []" by simp
    then have "match = [] \<and> dict (map (\<lambda>(k, v). (v, k)) match) = []"
      by (simp add: dict_def)
    with e show "seed = []" by blast
  qed
  from a b c d show ?thesis by blast
qed

theorem complete_match_first_completion_witness:
  "isomorphism vinyl methylene = Inr [[(2, 1), (4, 3), (5, 2)]] \<and>
   complete_match vinyl methylene [2, 3] [(2, 1)] = Inr [[(2, 1), (4, 3), (5, 2)]] \<and>
   GM_match vinyl methylene (GM_large [(2, 1), (4, 3)] [(1, 2), (3, 4)]) = ([[(2, 1), (4, 3), (5, 2)]], None) \<and>
   filter (\<lambda>idx. degree methylene idx \<noteq> 1) (nodes methylene) \<noteq> [] \<and>
   isomorphism dimer dimer = Inr [[(1, 1), (2, 2)], [(2, 1), (1, 2)]] \<and>
   complete_match dimer dimer [1, 2] [] = Inr [[(1, 1), (2, 2)], [(2, 1), (1, 2)]] \<and>
   GM_match dimer dimer (GM_large [] []) = ([[(1, 1), (2, 2)], [(2, 1), (1, 2)]], None) \<and>
   filter (\<lambda>idx. degree dimer idx \<noteq> 1) (nodes dimer) = []"
proof -
  have h1: "[2, 3] = filter (\<lambda>idx. degree methylene idx = 1) (nodes methylene)"
    by code_simp
  have h2: "to_list (GM_match vinyl (remove_nodes_from [2, 3] methylene) initialize) = Inr [[(1, 1)], [(2, 1)]]"
    by code_simp
  have h3: "extend_leaves vinyl methylene ([(2, 1)], dict (map (\<lambda>(k, v). (v, k)) [(2, 1)])) [2, 3]
      = Inr ([(2, 1), (4, 3)], [(1, 2), (3, 4)])"
    by code_simp
  have o: "GM_match vinyl methylene (GM_large [(2, 1), (4, 3)] [(1, 2), (3, 4)])
      = ([[(2, 1), (4, 3), (5, 2)]], None)"
    by code_simp
  have m: "[(2, 1)] \<in> set [[(1, 1)], [(2, 1 :: nat)] :: (nat \<times> nat) list]"
    by simp
  note T = complete_match_first_completion [OF h1 h2 m h3 o [symmetric]]
  have s: "sequence (map (complete_match vinyl methylene [2, 3]) [[(1, 1)], [(2, 1)]])
      = Inr [[], [[(2, 1), (4, 3), (5, 2)]]]"
    by code_simp
  have r: "sorted_by_rate vinyl methylene [[(2, 1), (4, 3), (5, 2)]] = Inr [[(2, 1), (4, 3), (5, 2)]]"
    by code_simp
  have a: "isomorphism vinyl methylene = Inr [[(2, 1), (4, 3), (5, 2)]]"
    unfolding T [THEN conjunct1] s using r by simp
  have b: "complete_match vinyl methylene [2, 3] [(2, 1)] = Inr [[(2, 1), (4, 3), (5, 2)]]"
    using T [THEN conjunct2, THEN conjunct2, THEN conjunct1] by simp
  have c: "filter (\<lambda>idx. degree methylene idx \<noteq> 1) (nodes methylene) \<noteq> []"
    using T [THEN conjunct2, THEN conjunct1] by simp
  have k1: "[1, 2] = filter (\<lambda>idx. degree dimer idx = 1) (nodes dimer)"
    by code_simp
  have k2: "to_list (GM_match dimer (remove_nodes_from [1, 2] dimer) initialize) = Inr [[]]"
    by code_simp
  have k3: "extend_leaves dimer dimer ([], dict (map (\<lambda>(k, v). (v, k)) [])) [1, 2] = Inr ([], [])"
    by code_simp
  have p: "GM_match dimer dimer (GM_large [] []) = ([[(1, 1), (2, 2)], [(2, 1), (1, 2)]], None)"
    by code_simp
  have m': "[] \<in> set [[] :: (nat \<times> nat) list]"
    by simp
  note U = complete_match_first_completion [OF k1 k2 m' k3 p [symmetric]]
  have s': "sequence (map (complete_match dimer dimer [1, 2]) [[]])
      = Inr [[[(1, 1), (2, 2)], [(2, 1), (1, 2)]]]"
    by code_simp
  have r': "sorted_by_rate dimer dimer [[(1, 1), (2, 2)], [(2, 1), (1, 2)]]
      = Inr [[(1, 1), (2, 2)], [(2, 1), (1, 2)]]"
    by code_simp
  have a': "isomorphism dimer dimer = Inr [[(1, 1), (2, 2)], [(2, 1), (1, 2)]]"
    unfolding U [THEN conjunct1] s' using r' by simp
  have b': "complete_match dimer dimer [1, 2] [] = Inr [[(1, 1), (2, 2)], [(2, 1), (1, 2)]]"
    using U [THEN conjunct2, THEN conjunct2, THEN conjunct2] by simp
  have c': "filter (\<lambda>idx. degree dimer idx \<noteq> 1) (nodes dimer) = []"
    using U [THEN conjunct2, THEN conjunct1] by simp
  from a b o c a' b' p c' show ?thesis by simp
qed

text \<open>
  Claim C6 as it is stated fails for a seed that has no completion. The heavy atom of the
  methylene can be sent to the first carbon of the vinyl group, which has one hydrogen
  only: the hydrogen of the same name is added to the seed, the seeded search discovers
  nothing, and nothing is added for that heavy embedding (the one match of the result
  is the completion of the other heavy embedding).
\<close>

theorem complete_match_no_completion_counterexample:
  "to_list (GM_match vinyl (remove_nodes_from (filter (\<lambda>idx. degree methylene idx = 1) (nodes methylene))
      methylene) initialize) = Inr [[(1, 1)], [(2, 1)]] \<and>
   extend_leaves vinyl methylene ([(1, 1)], dict (map (\<lambda>(k, v). (v, k)) [(1, 1)]))
      (filter (\<lambda>idx. degree methylene idx = 1) (nodes methylene)) = Inr ([(1, 1), (3, 2)], [(1, 1), (2, 3)]) \<and>
   GM_match vinyl methylene (GM_large [(1, 1), (3, 2)] [(1, 1), (2, 3)]) = ([], None) \<and>
   complete_match vinyl methylene (filter (\<lambda>idx. degree methylene idx = 1) (nodes methylene)) [(1, 1)] = Inr [] \<and>
   isomorphism vinyl methylene = Inr [[(2, 1), (4, 3), (5, 2)]]"
  by code_simp

end
